theory Spec2Isabelle
  imports Complex_Main "HOL-Library.Log_Nat"
begin

section \<open>Python floats\<close>

text \<open>
  The notebook computes with Python \<^verbatim>\<open>float\<close>s, that is IEEE 754 binary64 numbers: every
  literal and every result of an operation is the exact real value rounded to the nearest
  double, ties going to the even significand.

  \<open>round_half_even\<close> rounds a real to an integer that way, \<open>expo x\<close> is the binary
  exponent of \<open>x\<close> (the \<open>e\<close> with \<open>2^e \<le> |x| < 2^(e+1)\<close>, computed from the bit length of
  an integer part), and \<open>b64\<close> rounds to 53 significant bits whatever the exponent.
  \<open>nearest\<close> is the rounding of binary64 before overflow is looked at: from \<open>2^-1022\<close>
  on it rounds to 53 bits, below (the subnormal range) to a multiple of \<open>2^-1074\<close>, so
  that a small enough number rounds to zero.
\<close>

definition round_half_even :: "real \<Rightarrow> int" where
  "round_half_even x =
     (let f = \<lfloor>x\<rfloor>; r = x - of_int f
      in if r < 1/2 then f else if 1/2 < r then f + 1 else if even f then f else f + 1)"

definition expo :: "real \<Rightarrow> int" where
  "expo x = (if 1 \<le> \<bar>x\<bar> then bitlen \<lfloor>\<bar>x\<bar>\<rfloor> - 1 else - bitlen (\<lceil>1 / \<bar>x\<bar>\<rceil> - 1))"

definition b64 :: "real \<Rightarrow> real" where
  "b64 x =
     (if x = 0 then 0
      else let e = expo x - 52 in of_int (round_half_even (x / 2 powi e)) * 2 powi e)"

definition nearest :: "real \<Rightarrow> real" where
  "nearest x =
     (if \<bar>x\<bar> < 2 powi (- 1022)
      then of_int (round_half_even (x / 2 powi (- 1074))) * 2 powi (- 1074)
      else b64 x)"

definition normal_range :: "real \<Rightarrow> bool" where
  \<comment> \<open>the magnitudes of the normal doubles\<close>
  "normal_range x \<longleftrightarrow> 2 powi (- 1022) \<le> \<bar>x\<bar> \<and> \<bar>x\<bar> < 2 ^ 1024"

text \<open>
  A float is a real number, an infinity or a NaN. A result whose rounding reaches
  \<open>2^1024\<close> overflows to an infinity. (The two zeros of binary64 are one value here:
  they are equal under every comparison, \<^verbatim>\<open>/\<close> refuses both as a divisor, and they differ
  only in the sign that is printed.)
\<close>

datatype pyfloat = Fin real | PInf | NInf | NaN

definition to_double :: "real \<Rightarrow> pyfloat" where
  "to_double x =
     (let y = nearest x
      in if 2 ^ 1024 \<le> y then PInf else if y \<le> - (2 ^ 1024) then NInf else Fin y)"

text \<open>Python's \<^verbatim>\<open><=\<close> on floats: an order in which a NaN compares with nothing.\<close>

fun fle :: "pyfloat \<Rightarrow> pyfloat \<Rightarrow> bool" where
  "fle NaN b = False"
| "fle a NaN = False"
| "fle NInf b = True"
| "fle a PInf = True"
| "fle (Fin x) (Fin y) = (x \<le> y)"
| "fle a b = False"

fun positive :: "pyfloat \<Rightarrow> bool" where
  "positive (Fin x) = (0 < x)"
| "positive PInf = True"
| "positive NInf = False"
| "positive NaN = False"

definition inf_of :: "bool \<Rightarrow> pyfloat" where
  \<comment> \<open>the infinity of a given sign\<close>
  "inf_of p = (if p then PInf else NInf)"

text \<open>
  The formulas of the notebook are read in two arithmetics. An arithmetic is the rounding
  applied to the exact result of each operation, the value of \<^verbatim>\<open>numpy.pi\<close>, and the C
  library's \<^verbatim>\<open>pow(x, 2.0)\<close> for a positive finite \<open>x\<close>, which is what \<^verbatim>\<open>x**2\<close> calls.
  \<open>exact\<close> computes in the real numbers, with \<open>pi\<close> itself: the formulas as
  mathematics. \<open>ieee P\<close> is the interpreter's arithmetic on a platform whose \<^verbatim>\<open>pow\<close>
  squares as \<open>P\<close> does: every literal and every result is rounded by \<open>to_double\<close>, and
  \<^verbatim>\<open>numpy.pi\<close> is the double nearest to the decimal
  \<^verbatim>\<open>3.141592653589793238462643383279502884\<close> of numpy's C header. The C standard does not
  ask \<^verbatim>\<open>pow\<close> to be correctly rounded; \<open>binary64\<close> is the arithmetic in which it is.
\<close>

record arith =
  rnd :: "real \<Rightarrow> pyfloat"
  np_pi :: real
  pow2 :: "real \<Rightarrow> pyfloat"

definition exact :: arith where
  "exact = \<lparr>rnd = Fin, np_pi = pi, pow2 = (\<lambda>x. Fin (x * x))\<rparr>"

definition ieee :: "(real \<Rightarrow> pyfloat) \<Rightarrow> arith" where
  "ieee P = \<lparr>rnd = to_double, np_pi = b64 3.141592653589793238462643383279502884, pow2 = P\<rparr>"

definition binary64 :: arith where
  "binary64 = ieee (\<lambda>x. to_double (x * x))"

text \<open>
  Errors are Python's own: a float division by zero raises \<^verbatim>\<open>ZeroDivisionError\<close>, a
  \<^verbatim>\<open>**\<close> whose result overflows and the conversion of an \<^verbatim>\<open>int\<close> too large for a float
  raise \<^verbatim>\<open>OverflowError\<close>, reading a name that no cell has assigned raises
  \<^verbatim>\<open>NameError\<close>. The notebook defines no exception and has no \<^verbatim>\<open>raise\<close>, \<^verbatim>\<open>assert\<close> or
  \<^verbatim>\<open>if\<close>.
\<close>

datatype py_error = ZeroDivisionError | OverflowError | NameError

definition seq :: "py_error + 'a \<Rightarrow> ('a \<Rightarrow> py_error + 'b) \<Rightarrow> py_error + 'b" where
  "seq r f = (case r of Inl e \<Rightarrow> Inl e | Inr v \<Rightarrow> f v)"

definition lit :: "arith \<Rightarrow> real \<Rightarrow> pyfloat" where
  \<comment> \<open>a decimal float literal\<close>
  "lit A q = rnd A q"

definition int_to_float :: "arith \<Rightarrow> int \<Rightarrow> py_error + pyfloat" where
  \<comment> \<open>an \<^verbatim>\<open>int\<close> operand of a mixed operation is converted to \<^verbatim>\<open>float\<close> first: rounded, and
      refused when the rounding overflows\<close>
  "int_to_float A n = (case rnd A (of_int n) of Fin x \<Rightarrow> Inr (Fin x) | _ \<Rightarrow> Inl OverflowError)"

text \<open>
  \<^verbatim>\<open>a * b\<close> never raises: the product of an infinity and zero is a NaN, any other product
  with an infinity is an infinity, a NaN operand gives a NaN.
\<close>

fun fmul :: "arith \<Rightarrow> pyfloat \<Rightarrow> pyfloat \<Rightarrow> pyfloat" where
  "fmul A NaN b = NaN"
| "fmul A a NaN = NaN"
| "fmul A (Fin x) (Fin y) = rnd A (x * y)"
| "fmul A (Fin x) b = (if x = 0 then NaN else inf_of (positive b = (0 < x)))"
| "fmul A a (Fin y) = (if y = 0 then NaN else inf_of (positive a = (0 < y)))"
| "fmul A a b = inf_of (positive a = positive b)"

text \<open>
  \<^verbatim>\<open>a / b\<close> raises for a zero divisor, whatever the dividend; \<open>fquot\<close> is the quotient for
  every other divisor.
\<close>

fun fquot :: "arith \<Rightarrow> pyfloat \<Rightarrow> pyfloat \<Rightarrow> pyfloat" where
  "fquot A NaN b = NaN"
| "fquot A a NaN = NaN"
| "fquot A (Fin x) (Fin y) = rnd A (x / y)"
| "fquot A (Fin x) b = Fin 0"
| "fquot A a (Fin y) = inf_of (positive a = (0 < y))"
| "fquot A a b = NaN"

definition fdiv :: "arith \<Rightarrow> pyfloat \<Rightarrow> pyfloat \<Rightarrow> py_error + pyfloat" where
  "fdiv A a b = (if b = Fin 0 then Inl ZeroDivisionError else Inr (fquot A a b))"

text \<open>
  \<^verbatim>\<open>a**2\<close>: the interpreter answers for a NaN, an infinity and zero itself, hands the
  magnitude of any other base to \<^verbatim>\<open>pow\<close>, and raises when \<^verbatim>\<open>pow\<close> returns an infinity.
\<close>

fun fsquare :: "arith \<Rightarrow> pyfloat \<Rightarrow> py_error + pyfloat" where
  "fsquare A NaN = Inr NaN"
| "fsquare A PInf = Inr PInf"
| "fsquare A NInf = Inr PInf"
| "fsquare A (Fin x) =
     (if x = 0 then Inr (Fin 0)
      else case pow2 A \<bar>x\<bar> of PInf \<Rightarrow> Inl OverflowError | NInf \<Rightarrow> Inl OverflowError
           | y \<Rightarrow> Inr y)"

text \<open>
  \<^verbatim>\<open>np.sqrt\<close> returns a \<^verbatim>\<open>numpy.float64\<close> and never raises: it is \<^verbatim>\<open>nan\<close> for a negative
  argument and for a NaN. A \<^verbatim>\<open>numpy.float64\<close> times a float is the product of binary64.
\<close>

fun np_sqrt :: "arith \<Rightarrow> pyfloat \<Rightarrow> pyfloat" where
  "np_sqrt A (Fin x) = (if x < 0 then NaN else rnd A (sqrt x))"
| "np_sqrt A PInf = PInf"
| "np_sqrt A NInf = NaN"
| "np_sqrt A NaN = NaN"

definition np_mul :: "arith \<Rightarrow> pyfloat \<Rightarrow> pyfloat \<Rightarrow> pyfloat" where
  "np_mul A a b = fmul A a b"

section \<open>The formulas\<close>

text \<open>
  Each formula is the expression of its cell with the cell's variables as parameters,
  operation by operation in Python's order of evaluation.
  \<^item> \<^verbatim>\<open>D = kB*T/(3*np.pi*eta*d)\<close>
  \<^item> \<^verbatim>\<open>Du = D*(1e9)**2/(1e6)\<close> and \<^verbatim>\<open>Du = D*(1e6)**2/(1e3)\<close>
  \<^item> \<^verbatim>\<open>D = S_spot**2 / (2*N*tau_spot)\<close>
  \<^item> \<^verbatim>\<open>sigma = np.sqrt(2*D*3*time)\<close>
  \<^item> \<^verbatim>\<open>time = 1.*space**2/(2*D*3)\<close>
  \<open>T\<close>, \<open>N\<close> and the literals \<open>2\<close> and \<open>3\<close> are Python \<^verbatim>\<open>int\<close>s: \<open>2*N\<close> is an exact
  integer product, and an \<^verbatim>\<open>int\<close> meets a float only after its conversion. Every other
  variable is a float.
\<close>

definition D_stokes_einstein ::
  "arith \<Rightarrow> pyfloat \<Rightarrow> int \<Rightarrow> pyfloat \<Rightarrow> pyfloat \<Rightarrow> py_error + pyfloat" where
  "D_stokes_einstein A kB T eta d =
     seq (int_to_float A T) (\<lambda>t.
     seq (int_to_float A 3) (\<lambda>three.
     fdiv A (fmul A kB t) (fmul A (fmul A (fmul A three (Fin (np_pi A))) eta) d)))"

definition rescale :: "arith \<Rightarrow> pyfloat \<Rightarrow> pyfloat \<Rightarrow> pyfloat \<Rightarrow> py_error + pyfloat" where
  "rescale A D len tim = seq (fsquare A len) (\<lambda>l2. fdiv A (fmul A D l2) tim)"

definition D_spot :: "arith \<Rightarrow> pyfloat \<Rightarrow> int \<Rightarrow> pyfloat \<Rightarrow> py_error + pyfloat" where
  "D_spot A S_spot N tau_spot =
     seq (fsquare A S_spot) (\<lambda>s2.
     seq (int_to_float A (2 * N)) (\<lambda>n.
     fdiv A s2 (fmul A n tau_spot)))"

definition two_D_N :: "arith \<Rightarrow> pyfloat \<Rightarrow> int \<Rightarrow> py_error + pyfloat" where
  \<comment> \<open>\<^verbatim>\<open>2*D*3\<close>, the product both of the last two cells start from\<close>
  "two_D_N A D N =
     seq (int_to_float A 2) (\<lambda>two.
     seq (int_to_float A N) (\<lambda>n.
     Inr (fmul A (fmul A two D) n)))"

definition sigma_displacement :: "arith \<Rightarrow> pyfloat \<Rightarrow> int \<Rightarrow> pyfloat \<Rightarrow> py_error + pyfloat" where
  "sigma_displacement A D N time =
     seq (two_D_N A D N) (\<lambda>p. Inr (np_sqrt A (fmul A p time)))"

definition diffusion_time :: "arith \<Rightarrow> pyfloat \<Rightarrow> pyfloat \<Rightarrow> int \<Rightarrow> py_error + pyfloat" where
  "diffusion_time A space D N =
     seq (fsquare A space) (\<lambda>s2.
     seq (two_D_N A D N) (\<lambda>p.
     fdiv A (fmul A (lit A 1) s2) p))"

section \<open>Formatting\<close>

text \<open>
  \<^verbatim>\<open>'%.pf' % x\<close> writes the decimal with \<open>p\<close> fractional digits nearest to \<open>x\<close>
  (ties to even), with a minus sign for a negative \<open>x\<close>, and \<^verbatim>\<open>inf\<close>, \<^verbatim>\<open>-inf\<close> or
  \<^verbatim>\<open>nan\<close> for an infinity or a NaN. (From \<open>1e50\<close> on Python 2 writes an exponent
  instead; the notebook prints numbers around \<open>100\<close>, and that switch is left out.)
\<close>

fun digits :: "nat \<Rightarrow> string" where
  "digits n = (if n < 10 then [''0123456789'' ! n] else digits (n div 10) @ [''0123456789'' ! (n mod 10)])"

definition zero_pad :: "nat \<Rightarrow> string \<Rightarrow> string" where
  "zero_pad p s = replicate (p - length s) CHR ''0'' @ s"

definition fmt_f :: "nat \<Rightarrow> real \<Rightarrow> string" where
  "fmt_f p x =
     (let n = nat (round_half_even (\<bar>x\<bar> * 10 ^ p))
      in (if x < 0 then ''-'' else []) @ digits (n div 10 ^ p) @
         (if p = 0 then [] else ''.'' @ zero_pad p (digits (n mod 10 ^ p))))"

definition fmt_py :: "nat \<Rightarrow> pyfloat \<Rightarrow> string" where
  "fmt_py p x =
     (case x of Fin v \<Rightarrow> fmt_f p v | PInf \<Rightarrow> ''inf'' | NInf \<Rightarrow> ''-inf'' | NaN \<Rightarrow> ''nan'')"

section \<open>The notebook\<close>

text \<open>
  The state of the kernel is the value of each name the cells assign (\<open>None\<close> for a name
  not yet bound), the values the cells display as their \<^verbatim>\<open>Out\<close> and the lines printed.
  The notebook has one name \<open>D\<close> for the diffusion coefficient and one name \<open>Du\<close> for
  its rescaled value, each assigned by two cells, and one name \<open>time\<close>, assigned by the
  last two cells.
\<close>

record notebook =
  v_d :: "pyfloat option"
  v_eta :: "pyfloat option"
  v_kB :: "pyfloat option"
  v_T :: "int option"
  v_D :: "pyfloat option"
  v_Du :: "pyfloat option"
  v_S_spot :: "pyfloat option"
  v_N :: "int option"
  v_tau_spot :: "pyfloat option"
  v_time :: "pyfloat option"
  v_sigma :: "pyfloat option"
  v_space :: "pyfloat option"
  shown :: "pyfloat list"
  stdout :: "string list"

definition fresh :: notebook where
  "fresh = \<lparr>v_d = None, v_eta = None, v_kB = None, v_T = None, v_D = None, v_Du = None,
     v_S_spot = None, v_N = None, v_tau_spot = None, v_time = None, v_sigma = None,
     v_space = None, shown = [], stdout = []\<rparr>"

definition name :: "'a option \<Rightarrow> py_error + 'a" where
  "name v = (case v of None \<Rightarrow> Inl NameError | Some x \<Rightarrow> Inr x)"

definition cell_stokes :: "arith \<Rightarrow> notebook \<Rightarrow> py_error + notebook" where
  "cell_stokes A st =
     (let d = lit A (5 / 10 ^ 9); eta = lit A (1.0 / 10 ^ 3); kB = lit A (1.38 / 10 ^ 23); T = 293;
          st1 = st\<lparr>v_d := Some d, v_eta := Some eta, v_kB := Some kB, v_T := Some T\<rparr>
      in seq (D_stokes_einstein A kB T eta d)
           (\<lambda>D. Inr (st1\<lparr>v_D := Some D, shown := shown st1 @ [D]\<rparr>)))"

definition cell_Du_nm :: "arith \<Rightarrow> notebook \<Rightarrow> py_error + notebook" where
  "cell_Du_nm A st =
     seq (name (v_D st)) (\<lambda>D.
     seq (rescale A D (lit A (10 ^ 9)) (lit A (10 ^ 6)))
       (\<lambda>Du. Inr (st\<lparr>v_Du := Some Du, shown := shown st @ [Du]\<rparr>)))"

definition cell_spot :: "arith \<Rightarrow> notebook \<Rightarrow> py_error + notebook" where
  "cell_spot A st =
     (let S_spot = lit A (0.8 / 10 ^ 6); N = 3; tau_spot = lit A (1 / 10 ^ 3);
          st1 = st\<lparr>v_S_spot := Some S_spot, v_N := Some N, v_tau_spot := Some tau_spot\<rparr>
      in seq (D_spot A S_spot N tau_spot)
           (\<lambda>D. Inr (st1\<lparr>v_D := Some D, shown := shown st1 @ [D]\<rparr>)))"

definition cell_Du_um :: "arith \<Rightarrow> notebook \<Rightarrow> py_error + notebook" where
  "cell_Du_um A st =
     seq (name (v_D st)) (\<lambda>D.
     seq (rescale A D (lit A (10 ^ 6)) (lit A (10 ^ 3)))
       (\<lambda>Du. Inr (st\<lparr>v_Du := Some Du, shown := shown st @ [Du]\<rparr>)))"

definition cell_sigma :: "arith \<Rightarrow> notebook \<Rightarrow> py_error + notebook" where
  "cell_sigma A st =
     (let time = lit A 10; st1 = st\<lparr>v_time := Some time\<rparr>
      in seq (name (v_D st1)) (\<lambda>D.
         seq (sigma_displacement A D 3 time) (\<lambda>sigma.
         Inr (st1\<lparr>v_sigma := Some sigma,
               stdout := stdout st1 @
                 [''Displacement (std_dev): '' @ fmt_py 2 (np_mul A sigma (lit A (10 ^ 6))) @ '' um'']\<rparr>))))"

definition cell_time :: "arith \<Rightarrow> notebook \<Rightarrow> py_error + notebook" where
  "cell_time A st =
     (let space = lit A (0.1 / 10 ^ 3); st1 = st\<lparr>v_space := Some space\<rparr>
      in seq (name (v_D st1)) (\<lambda>D.
         seq (diffusion_time A space D 3) (\<lambda>time.
         Inr (st1\<lparr>v_time := Some time,
               stdout := stdout st1 @
                 [''Time for '' @ fmt_py 1 (fmul A space (lit A (10 ^ 6))) @
                  '' um displacement: '' @ fmt_py 1 time @ '' s'']\<rparr>))))"

definition run_notebook :: "arith \<Rightarrow> py_error + notebook" where
  "run_notebook A =
     seq (cell_stokes A fresh) (\<lambda>s1.
     seq (cell_Du_nm A s1) (\<lambda>s2.
     seq (cell_spot A s2) (\<lambda>s3.
     seq (cell_Du_um A s3) (\<lambda>s4.
     seq (cell_sigma A s4) (\<lambda>s5.
     cell_time A s5)))))"

section \<open>Auxiliary definitions\<close>

text \<open>
  \<open>huge\<close> is the least magnitude that rounds to an infinity, half a unit in the last
  place above the largest double; \<open>tiny\<close> is the largest magnitude that rounds to zero,
  half the smallest positive double.
\<close>

definition huge :: real where
  "huge = 2 ^ 1024 - 2 ^ 970"

definition tiny :: real where
  "tiny = 2 powi (- 1075)"

text \<open>\<^verbatim>\<open>x**2\<close> overflows when \<^verbatim>\<open>pow\<close> returns an infinity for a base that is not zero.\<close>

definition overflows :: "(real \<Rightarrow> pyfloat) \<Rightarrow> real \<Rightarrow> bool" where
  "overflows P x \<longleftrightarrow> x \<noteq> 0 \<and> (P \<bar>x\<bar> = PInf \<or> P \<bar>x\<bar> = NInf)"

text \<open>
  The general theorems speak of floats that are not negative, and of positive reals
  between two powers of two.
\<close>

definition nonneg :: "pyfloat \<Rightarrow> bool" where
  "nonneg a \<longleftrightarrow> fle (Fin 0) a"

definition window :: "int \<Rightarrow> int \<Rightarrow> real \<Rightarrow> bool" where
  "window lo hi x \<longleftrightarrow> 2 powi lo \<le> x \<and> x \<le> 2 powi hi"

text \<open>
  Properties of a rounding and of a \<^verbatim>\<open>pow\<close> that the general theorems rest on: a rounding
  of reals has relative error at most \<open>w\<close>; a rounding to floats is monotone and fixes
  zero; a \<^verbatim>\<open>pow\<close> returns a square in the normal range with relative error at most
  \<open>w\<close>, and returns neither a NaN nor a negative number.
\<close>

definition accurate :: "(real \<Rightarrow> real) \<Rightarrow> real \<Rightarrow> bool" where
  "accurate r w \<longleftrightarrow> 0 \<le> w \<and> w < 1 \<and> (\<forall>x. \<bar>r x - x\<bar> \<le> w * \<bar>x\<bar>)"

definition monotone_rounding :: "arith \<Rightarrow> bool" where
  "monotone_rounding A \<longleftrightarrow>
     rnd A 0 = Fin 0 \<and> (\<forall>x y. x \<le> y \<longrightarrow> fle (rnd A x) (rnd A y))"

definition pow_within :: "(real \<Rightarrow> pyfloat) \<Rightarrow> real \<Rightarrow> bool" where
  "pow_within P w \<longleftrightarrow>
     (\<forall>x. 0 < x \<longrightarrow> nonneg (P x)) \<and>
     (\<forall>x. 0 < x \<and> window (- 1022) 1023 (x * x) \<longrightarrow>
        (\<exists>y. P x = Fin y \<and> \<bar>y - x * x\<bar> \<le> w * (x * x)))"

text \<open>The terms of the arctangent series, used to bound \<open>pi\<close> through Machin's formula.\<close>

definition atn_term :: "real \<Rightarrow> nat \<Rightarrow> real" where
  "atn_term x k = 1 / real (k * 2 + 1) * x ^ (k * 2 + 1)"

section \<open>Rounding to nearest, ties to even\<close>

text \<open>A real within half a unit of an integer rounds to it; no real moves by more than half a unit.\<close>

lemma rhe_eqI:
  assumes "of_int m - 1/2 < y" "y < of_int m + 1/2"
  shows "round_half_even y = m"
proof (cases "of_int m \<le> y")
  case True
  then have f: "\<lfloor>y\<rfloor> = m" using assms by (intro floor_unique) auto
  show ?thesis using assms True by (simp add: round_half_even_def f Let_def)
next
  case False
  then have f: "\<lfloor>y\<rfloor> = m - 1" using assms by (intro floor_unique) auto
  show ?thesis using assms False by (simp add: round_half_even_def f Let_def)
qed

lemma rhe_of_int [simp]: "round_half_even (of_int m) = m"
  by (rule rhe_eqI) auto

lemma rhe_error: "\<bar>of_int (round_half_even y) - y\<bar> \<le> 1/2"
  unfolding round_half_even_def Let_def by (auto split: if_splits)

text \<open>\<open>expo\<close> is the binary exponent: the one \<open>e\<close> with \<open>2^e \<le> |x| < 2^(e+1)\<close>.\<close>

lemma expo_bounds:
  assumes "x \<noteq> 0"
  shows "2 powi (expo x) \<le> \<bar>x\<bar>" "\<bar>x\<bar> < 2 powi (expo x + 1)"
proof -
  have both: "2 powi (expo x) \<le> \<bar>x\<bar> \<and> \<bar>x\<bar> < 2 powi (expo x + 1)"
  proof (cases "1 \<le> \<bar>x\<bar>")
    case True
    define n where "n = \<lfloor>\<bar>x\<bar>\<rfloor>"
    have n1: "1 \<le> n" using True by (simp add: n_def le_floor_iff)
    then have npos: "0 < n" by simp
    have e: "expo x = bitlen n - 1" using True by (simp add: expo_def n_def)
    have bl: "1 \<le> bitlen n" using npos by (simp add: bitlen_alt_def)
    from bitlen_bounds[OF npos] have lo: "2 ^ nat (bitlen n - 1) \<le> n" and hi: "n < 2 ^ nat (bitlen n)" by auto
    have "(2::real) ^ nat (bitlen n - 1) \<le> of_int n" using lo
      by (metis of_int_le_iff of_int_numeral of_int_power)
    also have "\<dots> \<le> \<bar>x\<bar>" by (simp add: n_def)
    finally have A: "2 powi (expo x) \<le> \<bar>x\<bar>" using bl by (simp add: e power_int_def)
    have "n + 1 \<le> 2 ^ nat (bitlen n)" using hi by simp
    then have "of_int (n + 1) \<le> (2::real) ^ nat (bitlen n)"
      by (metis of_int_le_iff of_int_numeral of_int_power)
    moreover have "\<bar>x\<bar> < of_int (n + 1)" unfolding n_def by linarith
    ultimately have "\<bar>x\<bar> < 2 ^ nat (bitlen n)" by linarith
    then have B: "\<bar>x\<bar> < 2 powi (expo x + 1)" using bl by (simp add: e power_int_def)
    show ?thesis using A B by simp
  next
    case False
    then have small: "\<bar>x\<bar> < 1" by simp
    have xpos: "0 < \<bar>x\<bar>" using assms by simp
    define c where "c = \<lceil>1 / \<bar>x\<bar>\<rceil> - 1"
    have inv: "1 < 1 / \<bar>x\<bar>" using small xpos by simp
    then have cpos: "0 < c" unfolding c_def by linarith
    have e: "expo x = - bitlen c" using False by (simp add: expo_def c_def)
    have bl: "1 \<le> bitlen c" using cpos by (simp add: bitlen_alt_def)
    from bitlen_bounds[OF cpos] have lo: "2 ^ nat (bitlen c - 1) \<le> c" and hi: "c < 2 ^ nat (bitlen c)" by auto
    have c_lt: "of_int c < 1 / \<bar>x\<bar>" unfolding c_def by linarith
    have c_ge: "1 / \<bar>x\<bar> \<le> of_int (c + 1)" unfolding c_def by simp
    have "(2::real) ^ nat (bitlen c - 1) \<le> of_int c" using lo
      by (metis of_int_le_iff of_int_numeral of_int_power)
    then have "(2::real) ^ nat (bitlen c - 1) < 1 / \<bar>x\<bar>" using c_lt by linarith
    then have "\<bar>x\<bar> < 1 / 2 ^ nat (bitlen c - 1)" using xpos
      by (simp add: field_simps)
    moreover have "expo x + 1 = - int (nat (bitlen c - 1))" using bl by (simp add: e)
    ultimately have B: "\<bar>x\<bar> < 2 powi (expo x + 1)"
      by (simp only: power_int_minus power_int_of_nat inverse_eq_divide)
    have "c + 1 \<le> 2 ^ nat (bitlen c)" using hi by simp
    then have "of_int (c + 1) \<le> (2::real) ^ nat (bitlen c)"
      by (metis of_int_le_iff of_int_numeral of_int_power)
    then have "1 / \<bar>x\<bar> \<le> 2 ^ nat (bitlen c)" using c_ge by linarith
    then have "1 / 2 ^ nat (bitlen c) \<le> \<bar>x\<bar>" using xpos by (simp add: field_simps)
    moreover have "expo x = - int (nat (bitlen c))" using bl by (simp add: e)
    ultimately have A: "2 powi (expo x) \<le> \<bar>x\<bar>"
      by (simp only: power_int_minus power_int_of_nat inverse_eq_divide)
    show ?thesis using A B by simp
  qed
  show "2 powi (expo x) \<le> \<bar>x\<bar>" "\<bar>x\<bar> < 2 powi (expo x + 1)" using both by auto
qed

lemma powi2_mono: "a \<le> b \<Longrightarrow> (2::real) powi a \<le> 2 powi b"
  by (rule power_int_increasing) auto

lemma expo_unique:
  assumes "2 powi e \<le> \<bar>x\<bar>" "\<bar>x\<bar> < 2 powi (e + 1)"
  shows "expo x = e"
proof -
  have "(0::real) < 2 powi e" by simp
  then have "0 < \<bar>x\<bar>" using assms(1) by (rule less_le_trans)
  then have x0: "x \<noteq> 0" by simp
  note b = expo_bounds[OF x0]
  have "\<not> expo x + 1 \<le> e"
  proof
    assume "expo x + 1 \<le> e"
    then have "(2::real) powi (expo x + 1) \<le> 2 powi e" by (rule powi2_mono)
    with b(2) assms(1) show False by linarith
  qed
  moreover have "\<not> e + 1 \<le> expo x"
  proof
    assume "e + 1 \<le> expo x"
    then have "(2::real) powi (e + 1) \<le> 2 powi expo x" by (rule powi2_mono)
    with b(1) assms(2) show False by linarith
  qed
  ultimately show ?thesis by linarith
qed

text \<open>The rounding of \<open>x\<close> is found from the exponent that brings \<open>x\<close> between \<open>2^52\<close> and \<open>2^53\<close>.\<close>

lemma b64_eqI:
  assumes "2 powi (e + 52) \<le> \<bar>x\<bar>" "\<bar>x\<bar> < 2 powi (e + 53)"
    and "round_half_even (x / 2 powi e) = m"
  shows "b64 x = of_int m * 2 powi e"
proof -
  have "expo x = e + 52" using assms(1,2) by (intro expo_unique) (simp_all add: add.commute add.left_commute)
  moreover have "(0::real) < 2 powi (e + 52)" by simp
  then have "0 < \<bar>x\<bar>" using assms(1) by (rule less_le_trans)
  then have "x \<noteq> 0" by simp
  ultimately show ?thesis using assms(3) by (simp add: b64_def)
qed

text \<open>Its relative error is at most \<open>2^-53\<close>, half a unit in the last place.\<close>

lemma b64_error: "\<bar>b64 x - x\<bar> \<le> \<bar>x\<bar> / 2 ^ 53"
proof (cases "x = 0")
  case True then show ?thesis by (simp add: b64_def)
next
  case False
  define e where "e = expo x - 52"
  define y where "y = x / 2 powi e"
  have p: "(0::real) < 2 powi e" by simp
  have x: "x = y * 2 powi e" by (simp add: y_def)
  have "b64 x - x = (of_int (round_half_even y) - y) * 2 powi e"
    using False by (simp add: b64_def e_def[symmetric] y_def[symmetric] Let_def algebra_simps) (simp add: y_def)
  then have "\<bar>b64 x - x\<bar> = \<bar>of_int (round_half_even y) - y\<bar> * 2 powi e"
    by (simp add: abs_mult)
  also have "\<dots> \<le> 1/2 * 2 powi e" using rhe_error[of y] by (intro mult_right_mono) auto
  also have "\<dots> = 2 powi (expo x) / 2^53"
    by (simp add: e_def power_int_diff)
  also have "\<dots> \<le> \<bar>x\<bar> / 2^53" using expo_bounds(1)[OF False] by (simp add: divide_right_mono)
  finally show ?thesis .
qed

text \<open>The two rules that evaluate a rounding, and the rounding of a square root, from a significand \<open>m\<close> and an exponent \<open>e\<close> given in advance: every premise is a comparison of rationals.\<close>

lemma b64_evalI:
  assumes "y = of_int m * 2 powi e"
    and "2 powi (e + 52) \<le> \<bar>x\<bar>" "\<bar>x\<bar> < 2 powi (e + 53)"
    and "of_int m - 1/2 < x / 2 powi e" "x / 2 powi e < of_int m + 1/2"
  shows "b64 x = y"
  unfolding assms(1) using assms(2,3) by (rule b64_eqI) (rule rhe_eqI[OF assms(4,5)])

lemma b64_sqrt_evalI:
  assumes "y = of_int m * 2 powi e" and "0 < m"
    and "2 powi (e + 52) * 2 powi (e + 52) \<le> x" "x < 2 powi (e + 53) * 2 powi (e + 53)"
    and "(of_int m - 1/2) * (of_int m - 1/2) < x / (2 powi e * 2 powi e)"
    and "x / (2 powi e * 2 powi e) < (of_int m + 1/2) * (of_int m + 1/2)"
  shows "b64 (sqrt x) = y"
proof (rule b64_evalI[OF assms(1)])
  have p: "(0::real) < 2 powi k" for k by simp
  have x0: "0 \<le> x" using assms(3) p[of "e + 52"] by (meson less_imp_le mult_nonneg_nonneg order_trans)
  have s0: "0 \<le> sqrt x" using x0 by simp
  have m0: "(0::real) \<le> of_int m - 1/2" using assms(2) by (simp add: int_le_real_less)
  show "2 powi (e + 52) \<le> \<bar>sqrt x\<bar>"
    using assms(3) s0 p[of "e + 52"] by (simp add: real_le_rsqrt power2_eq_square)
  show "\<bar>sqrt x\<bar> < 2 powi (e + 53)"
    using assms(4) s0 p[of "e + 53"] by (simp add: real_less_lsqrt less_imp_le power2_eq_square)
  have d: "sqrt x / 2 powi e = sqrt (x / (2 powi e * 2 powi e))"
    using p[of e] by (simp add: real_sqrt_divide real_sqrt_mult)
  show "of_int m - 1/2 < sqrt x / 2 powi e"
    unfolding d using assms(5) m0 by (intro real_less_rsqrt) (simp add: power2_eq_square)
  show "sqrt x / 2 powi e < of_int m + 1/2"
    unfolding d using assms(6) m0 by (intro real_less_lsqrt) (auto simp: power2_eq_square)
qed

text \<open>A number with a significand of at most 53 bits is a double, and rounding leaves it as it is.\<close>

lemma b64_exactI:
  assumes "\<bar>m\<bar> < 2 ^ 53"
  shows "b64 (of_int m * 2 powi e) = of_int m * 2 powi e"
proof (cases "m = 0")
  case True then show ?thesis by (simp add: b64_def)
next
  case False
  define x :: real where "x = of_int m * 2 powi e"
  have x0: "x \<noteq> 0" using False by (simp add: x_def)
  define k where "k = e - (expo x - 52)"
  have "\<bar>x\<bar> = of_int \<bar>m\<bar> * 2 powi e" by (simp add: x_def abs_mult)
  also have "\<dots> < 2 ^ 53 * 2 powi e"
  proof (rule mult_strict_right_mono)
    have "real_of_int \<bar>m\<bar> < real_of_int (2 ^ 53)" using assms by (simp only: of_int_less_iff)
    then show "real_of_int \<bar>m\<bar> < 2 ^ 53" by simp
  qed simp
  also have "\<dots> = 2 powi (e + 53)" by (simp add: power_int_add)
  finally have "2 powi expo x < (2::real) powi (e + 53)"
    using expo_bounds(1)[OF x0] by linarith
  then have "expo x < e + 53"
    using powi2_mono[of "e + 53" "expo x"] by (cases "expo x < e + 53") auto
  then have k0: "0 \<le> k" by (simp add: k_def)
  have "x / 2 powi (expo x - 52) = of_int m * 2 powi k"
    by (simp add: x_def k_def power_int_diff)
  also have "\<dots> = of_int (m * 2 ^ nat k)" using k0 by (simp add: power_int_def)
  finally have "round_half_even (x / 2 powi (expo x - 52)) = m * 2 ^ nat k"
    by (simp only: rhe_of_int)
  then have "b64 x = of_int (m * 2 ^ nat k) * 2 powi (expo x - 52)"
    using x0 by (simp add: b64_def)
  also have "\<dots> = of_int m * (2 powi k * 2 powi (expo x - 52))" using k0 by (simp add: power_int_def)
  also have "2 powi k * 2 powi (expo x - 52) = (2::real) powi e"
    by (simp add: k_def power_int_add[symmetric])
  finally show ?thesis by (simp add: x_def)
qed

lemma b64_of_int: "\<bar>n\<bar> < 2 ^ 53 \<Longrightarrow> b64 (of_int n) = of_int n"
  using b64_exactI[of n 0] by simp

text \<open>Rounding is odd and monotone.\<close>

lemma rhe_mono:
  assumes "a \<le> b"
  shows "round_half_even a \<le> round_half_even b"
proof (rule ccontr)
  assume "\<not> round_half_even a \<le> round_half_even b"
  then have "round_half_even b + 1 \<le> round_half_even a" by simp
  then have g: "of_int (round_half_even b) + 1 \<le> (of_int (round_half_even a) :: real)"
    by (metis of_int_1 of_int_add of_int_le_iff)
  have "\<bar>of_int (round_half_even a) - a\<bar> \<le> 1/2" "\<bar>of_int (round_half_even b) - b\<bar> \<le> 1/2"
    by (rule rhe_error)+
  with g assms have ab: "a = b" by linarith
  with \<open>\<not> round_half_even a \<le> round_half_even b\<close> show False by simp
qed

lemma rhe_minus: "round_half_even (- x) = - round_half_even x"
proof (cases "x = of_int \<lfloor>x\<rfloor>")
  case True
  then obtain k where "x = of_int k" ..
  then have "round_half_even (- x) = round_half_even (of_int (- k))" by simp
  also have "\<dots> = - k" by (rule rhe_of_int)
  finally show ?thesis using \<open>x = of_int k\<close> by simp
next
  case False
  define f where "f = \<lfloor>x\<rfloor>"
  have lt: "of_int f < x" "x < of_int f + 1"
    using False unfolding f_def by linarith+
  have fm: "\<lfloor>- x\<rfloor> = - f - 1"
    using lt by (intro floor_unique) auto
  show ?thesis
    using lt unfolding round_half_even_def Let_def fm f_def[symmetric]
    by (auto split: if_splits)
qed

lemma expo_minus: "expo (- x) = expo x"
  by (simp add: expo_def)

lemma b64_minus: "b64 (- x) = - b64 x"
  by (simp add: b64_def expo_minus rhe_minus Let_def)

lemma b64_zero: "b64 0 = 0"
  by (simp add: b64_def)

lemma b64_pos_bounds:
  assumes "0 < x"
  shows "2 powi expo x \<le> b64 x" "b64 x \<le> 2 powi (expo x + 1)"
proof -
  have x0: "x \<noteq> 0" using assms by simp
  define e where "e = expo x - 52"
  have p: "(0::real) < 2 powi e" by simp
  have b: "b64 x = of_int (round_half_even (x / 2 powi e)) * 2 powi e"
    using x0 by (simp add: b64_def e_def Let_def)
  have lo: "2 ^ 52 \<le> x / 2 powi e"
  proof -
    have "2 powi expo x \<le> x" using expo_bounds(1)[OF x0] assms by simp
    moreover have "(2::real) powi expo x = 2 ^ 52 * 2 powi e"
      by (simp add: e_def power_int_diff)
    ultimately show ?thesis using p by (simp add: pos_le_divide_eq)
  qed
  have hi: "x / 2 powi e \<le> 2 ^ 53"
  proof -
    have "x < 2 powi (expo x + 1)" using expo_bounds(2)[OF x0] assms by simp
    moreover have "(2::real) powi (expo x + 1) = 2 ^ 53 * 2 powi e"
      by (simp add: e_def power_int_diff power_int_add)
    ultimately show ?thesis using p by (simp add: pos_divide_le_eq)
  qed
  have "round_half_even (of_int (2 ^ 52)) \<le> round_half_even (x / 2 powi e)"
    using lo by (intro rhe_mono) simp
  then have "2 ^ 52 \<le> round_half_even (x / 2 powi e)" by (simp only: rhe_of_int)
  then have "(2::real) ^ 52 \<le> of_int (round_half_even (x / 2 powi e))"
    by (metis of_int_le_iff of_int_numeral of_int_power)
  then have "2 ^ 52 * 2 powi e \<le> b64 x" unfolding b using p by (simp add: mult_right_mono)
  then show "2 powi expo x \<le> b64 x" by (simp add: e_def power_int_diff)
  have "round_half_even (x / 2 powi e) \<le> round_half_even (of_int (2 ^ 53))"
    using hi by (intro rhe_mono) simp
  then have "round_half_even (x / 2 powi e) \<le> 2 ^ 53" by (simp only: rhe_of_int)
  then have "of_int (round_half_even (x / 2 powi e)) \<le> (2::real) ^ 53"
    by (metis of_int_le_iff of_int_numeral of_int_power)
  then have "b64 x \<le> 2 ^ 53 * 2 powi e" unfolding b using p by (simp add: mult_right_mono)
  then show "b64 x \<le> 2 powi (expo x + 1)" by (simp add: e_def power_int_diff power_int_add)
qed

lemma b64_pos: "0 < x \<Longrightarrow> 0 < b64 x"
proof -
  assume "0 < x"
  then have "2 powi expo x \<le> b64 x" by (rule b64_pos_bounds(1))
  moreover have "(0::real) < 2 powi expo x" by simp
  ultimately show ?thesis by (rule less_le_trans[rotated])
qed

lemma b64_mono_pos:
  assumes "0 < x" "x \<le> y"
  shows "b64 x \<le> b64 y"
proof -
  have y: "0 < y" using assms by simp
  have x0: "x \<noteq> 0" and y0: "y \<noteq> 0" using assms by simp_all
  have le: "expo x \<le> expo y"
  proof (rule ccontr)
    assume "\<not> expo x \<le> expo y"
    then have "expo y + 1 \<le> expo x" by simp
    then have "(2::real) powi (expo y + 1) \<le> 2 powi expo x" by (rule powi2_mono)
    with expo_bounds(2)[OF y0] expo_bounds(1)[OF x0] assms y show False by simp
  qed
  show ?thesis
  proof (cases "expo x = expo y")
    case True
    define e where "e = expo y - 52"
    have "x / 2 powi e \<le> y / 2 powi e" using assms(2) by (simp add: divide_right_mono)
    then have "round_half_even (x / 2 powi e) \<le> round_half_even (y / 2 powi e)" by (rule rhe_mono)
    then have "(of_int (round_half_even (x / 2 powi e)) :: real) \<le> of_int (round_half_even (y / 2 powi e))"
      by simp
    then show ?thesis using x0 y0 by (simp add: b64_def True e_def Let_def mult_right_mono)
  next
    case False
    with le have "expo x + 1 \<le> expo y" by simp
    then have "(2::real) powi (expo x + 1) \<le> 2 powi expo y" by (rule powi2_mono)
    with b64_pos_bounds(2)[OF assms(1)] b64_pos_bounds(1)[OF y] show ?thesis by linarith
  qed
qed

lemma b64_mono:
  assumes "x \<le> y"
  shows "b64 x \<le> b64 y"
proof -
  consider "0 < x" | "x \<le> 0" "0 \<le> y" | "y < 0" by linarith
  then show ?thesis
  proof cases
    case 1
    then show ?thesis using assms by (rule b64_mono_pos)
  next
    case 2
    have "b64 x \<le> 0"
    proof (cases "x = 0")
      case True then show ?thesis by (simp add: b64_zero)
    next
      case False
      with 2 have "0 < - x" by simp
      from b64_pos[OF this] show ?thesis by (simp add: b64_minus)
    qed
    moreover have "0 \<le> b64 y"
    proof (cases "y = 0")
      case True then show ?thesis by (simp add: b64_zero)
    next
      case False
      with 2 have "0 < y" by simp
      from b64_pos[OF this] show ?thesis by simp
    qed
    ultimately show ?thesis by simp
  next
    case 3
    then have "0 < - y" "- y \<le> - x" using assms by simp_all
    from b64_mono_pos[OF this] show ?thesis by (simp add: b64_minus)
  qed
qed

section \<open>The range of binary64\<close>

text \<open>Below \<open>2^-1022\<close> the doubles are the multiples of \<open>2^-1074\<close>; from there on \<open>nearest\<close> is \<open>b64\<close>.\<close>

lemma nearest_normal: "2 powi (- 1022) \<le> \<bar>x\<bar> \<Longrightarrow> nearest x = b64 x"
  by (simp add: nearest_def)

lemma nearest_sub:
  "\<bar>x\<bar> < 2 powi (- 1022) \<Longrightarrow>
   nearest x = of_int (round_half_even (x / 2 powi (- 1074))) * 2 powi (- 1074)"
  by (simp add: nearest_def)

lemma rhe_numeral [simp]: "round_half_even (numeral k) = numeral k"
  using rhe_of_int[of "numeral k"] by simp

lemma rhe_zero [simp]: "round_half_even 0 = 0"
  using rhe_of_int[of 0] by simp

lemma nearest_zero: "nearest 0 = 0"
  by (simp add: nearest_def)

lemma nearest_minus: "nearest (- x) = - nearest x"
  by (simp add: nearest_def b64_minus rhe_minus)

lemma b64_powi: "b64 (2 powi k) = 2 powi k"
  using b64_exactI[of 1 k] by simp

lemma nearest_mono_nonneg:
  assumes "0 \<le> x" "x \<le> y"
  shows "nearest x \<le> nearest y"
proof -
  consider "y < 2 powi (- 1022)" | "x < 2 powi (- 1022)" "2 powi (- 1022) \<le> y"
    | "2 powi (- 1022) \<le> x" by linarith
  then show ?thesis
  proof cases
    case 1
    have "x / 2 powi (- 1074) \<le> y / 2 powi (- 1074)" using assms(2) by (simp add: divide_right_mono)
    then have "round_half_even (x / 2 powi (- 1074)) \<le> round_half_even (y / 2 powi (- 1074))"
      by (rule rhe_mono)
    then have "(of_int (round_half_even (x / 2 powi (- 1074))) :: real) \<le>
        of_int (round_half_even (y / 2 powi (- 1074)))" by simp
    then have "of_int (round_half_even (x / 2 powi (- 1074))) * 2 powi (- 1074) \<le>
        of_int (round_half_even (y / 2 powi (- 1074))) * (2::real) powi (- 1074)"
      by (rule mult_right_mono) simp
    moreover have "\<bar>x\<bar> < 2 powi (- 1022)" "\<bar>y\<bar> < 2 powi (- 1022)" using 1 assms by simp_all
    ultimately show ?thesis by (simp only: nearest_sub)
  next
    case 2
    have ax: "\<bar>x\<bar> < 2 powi (- 1022)" using 2 assms by simp
    have ay: "2 powi (- 1022) \<le> \<bar>y\<bar>" using 2 by simp
    have "x / 2 powi (- 1074) \<le> of_int (2 ^ 52)"
    proof -
      have "x \<le> 2 powi (- 1022)" using 2 by simp
      also have "(2::real) powi (- 1022) = 2 ^ 52 * 2 powi (- 1074)"
        by (simp add: power_int_minus divide_simps)
      finally show ?thesis by (simp add: pos_divide_le_eq)
    qed
    then have "round_half_even (x / 2 powi (- 1074)) \<le> round_half_even (of_int (2 ^ 52))"
      by (rule rhe_mono)
    then have "round_half_even (x / 2 powi (- 1074)) \<le> 2 ^ 52" by (simp only: rhe_of_int)
    then have "(of_int (round_half_even (x / 2 powi (- 1074))) :: real) \<le> of_int (2 ^ 52)"
      by (simp only: of_int_le_iff)
    then have "of_int (round_half_even (x / 2 powi (- 1074))) * 2 powi (- 1074) \<le>
        of_int (2 ^ 52) * (2::real) powi (- 1074)"
      by (rule mult_right_mono) simp
    also have "of_int (2 ^ 52) * (2::real) powi (- 1074) = 2 powi (- 1022)"
      by (simp add: power_int_minus divide_simps)
    finally have "nearest x \<le> 2 powi (- 1022)" using ax by (simp only: nearest_sub)
    also have "\<dots> = b64 (2 powi (- 1022))" by (simp only: b64_powi)
    also have "\<dots> \<le> b64 y" using 2 by (intro b64_mono)
    finally show ?thesis using ay by (simp only: nearest_normal)
  next
    case 3
    then have "2 powi (- 1022) \<le> \<bar>x\<bar>" "2 powi (- 1022) \<le> \<bar>y\<bar>" using assms by simp_all
    then show ?thesis using assms(2) by (simp only: nearest_normal b64_mono)
  qed
qed

lemma nearest_nonneg: "0 \<le> x \<Longrightarrow> 0 \<le> nearest x"
  using nearest_mono_nonneg[of 0 x] by (simp add: nearest_zero)

lemma nearest_mono:
  assumes "x \<le> y"
  shows "nearest x \<le> nearest y"
proof -
  consider "0 \<le> x" | "x < 0" "0 \<le> y" | "y < 0" by linarith
  then show ?thesis
  proof cases
    case 1
    then show ?thesis using assms by (rule nearest_mono_nonneg)
  next
    case 2
    have "0 \<le> nearest (- x)" using 2 by (intro nearest_nonneg) simp
    then have "nearest x \<le> 0" by (simp add: nearest_minus)
    moreover have "0 \<le> nearest y" using 2 by (intro nearest_nonneg)
    ultimately show ?thesis by simp
  next
    case 3
    then have "0 \<le> - y" "- y \<le> - x" using assms by simp_all
    from nearest_mono_nonneg[OF this] show ?thesis by (simp add: nearest_minus)
  qed
qed

text \<open>What rounds to zero, and what rounds to \<open>2^1024\<close> or beyond.\<close>

lemma rhe_small: "\<bar>z\<bar> \<le> 1/2 \<Longrightarrow> round_half_even z = 0"
proof -
  assume a: "\<bar>z\<bar> \<le> 1/2"
  consider "z = 1/2" | "z = - 1/2" | "- 1/2 < z" "z < 1/2" using a by linarith
  then show ?thesis
  proof cases
    case 1
    have "round_half_even (1/2) = 0" by (simp add: round_half_even_def Let_def)
    then show ?thesis unfolding 1 .
  next
    case 2
    have "round_half_even (1/2) = 0" by (simp add: round_half_even_def Let_def)
    then have "round_half_even (- (1/2)) = 0" by (simp only: rhe_minus)
    then show ?thesis unfolding 2 by simp
  next
    case 3 then show ?thesis by (intro rhe_eqI) simp_all
  qed
qed

lemma nearest_eq_0_iff: "nearest x = 0 \<longleftrightarrow> \<bar>x\<bar> \<le> tiny"
proof
  assume n: "nearest x = 0"
  show "\<bar>x\<bar> \<le> tiny"
  proof (cases "\<bar>x\<bar> < 2 powi (- 1022)")
    case True
    define z where "z = x / 2 powi (- 1074)"
    have "of_int (round_half_even z) * (2::real) powi (- 1074) = 0"
      using n True by (simp only: nearest_sub z_def)
    then have "round_half_even z = 0" by simp
    with rhe_error[of z] have "\<bar>z\<bar> \<le> 1/2" by simp
    then have "\<bar>x\<bar> / 2 powi (- 1074) \<le> 1/2" by (simp add: z_def abs_divide)
    then have "\<bar>x\<bar> \<le> 1/2 * 2 powi (- 1074)" by (simp add: pos_divide_le_eq)
    also have "\<dots> = tiny" by (simp add: tiny_def power_int_minus divide_simps)
    finally show ?thesis .
  next
    case False
    then have nrm: "2 powi (- 1022) \<le> \<bar>x\<bar>" by simp
    have "(0::real) < 2 powi (- 1022)" by simp
    with nrm have "x \<noteq> 0" by auto
    then have "b64 x \<noteq> 0" using b64_pos[of x] b64_pos[of "- x"] by (cases "0 < x") (auto simp: b64_minus)
    with n nrm show ?thesis by (simp add: nearest_normal)
  qed
next
  assume a: "\<bar>x\<bar> \<le> tiny"
  have "tiny < 2 powi (- 1022)" unfolding tiny_def by (intro power_int_strict_increasing) simp_all
  with a have s: "\<bar>x\<bar> < 2 powi (- 1022)" by simp
  have "\<bar>x\<bar> \<le> 1/2 * 2 powi (- 1074)" using a by (simp add: tiny_def power_int_minus divide_simps)
  then have "\<bar>x\<bar> / 2 powi (- 1074) \<le> 1/2" by (simp add: pos_divide_le_eq)
  then have "\<bar>x / 2 powi (- 1074)\<bar> \<le> 1/2" by (simp add: abs_divide)
  then have "round_half_even (x / 2 powi (- 1074)) = 0" by (rule rhe_small)
  then show "nearest x = 0" using s by (simp add: nearest_sub)
qed

lemma b64_huge: "b64 huge = 2 ^ 1024"
proof -
  have r: "round_half_even (18014398509481983 / 2) = 9007199254740992"
    by (simp add: round_half_even_def Let_def)
  have h: "huge = 18014398509481983 / 2 * 2 powi 971"
    by (simp add: huge_def)
  have "b64 huge = of_int 9007199254740992 * 2 powi 971"
  proof (rule b64_eqI)
    show "2 powi (971 + 52) \<le> \<bar>huge\<bar>" by (simp add: huge_def)
    show "\<bar>huge\<bar> < 2 powi (971 + 53)" by (simp add: huge_def)
    show "round_half_even (huge / 2 powi 971) = 9007199254740992"
      unfolding h using r by simp
  qed
  then show ?thesis by simp
qed

lemma nearest_ge_iff: "2 ^ 1024 \<le> nearest x \<longleftrightarrow> huge \<le> x"
proof
  assume h: "huge \<le> x"
  have h0: "2 powi (- 1022) \<le> huge"
  proof -
    have "(2::real) powi (- 1022) \<le> 2 powi 0" by (intro powi2_mono) simp
    also have "\<dots> \<le> huge" by (simp add: huge_def)
    finally show ?thesis .
  qed
  with h have "2 powi (- 1022) \<le> \<bar>x\<bar>" by simp
  then have "nearest x = b64 x" by (rule nearest_normal)
  moreover have "b64 huge \<le> b64 x" using h by (rule b64_mono)
  ultimately show "2 ^ 1024 \<le> nearest x" by (simp add: b64_huge)
next
  assume n: "2 ^ 1024 \<le> nearest x"
  show "huge \<le> x"
  proof (rule ccontr)
    assume "\<not> huge \<le> x"
    then have lt: "x < huge" by simp
    show False
    proof (cases "x \<le> 2 ^ 1023")
      case True
      then have "nearest x \<le> nearest (2 ^ 1023)" by (rule nearest_mono)
      also have "nearest (2 ^ 1023) = b64 (2 powi 1023)" by (simp add: nearest_def)
      also have "\<dots> = 2 ^ 1023" by (simp only: b64_powi) simp
      finally show False using n by simp
    next
      case False
      then have ge: "2 ^ 1023 < x" by simp
      define z where "z = x / 2 powi 971"
      have z: "z < 2 ^ 53 - 1/2"
      proof -
        have "x < (2 ^ 53 - 1/2) * 2 powi 971" using lt by (simp add: huge_def)
        then show ?thesis by (simp add: z_def pos_divide_less_eq)
      qed
      have "of_int (round_half_even z) \<le> z + 1/2" using rhe_error[of z] by linarith
      with z have "of_int (round_half_even z) < (2::real) ^ 53" by linarith
      then have "of_int (round_half_even z) < (of_int (2 ^ 53) :: real)" by simp
      then have "round_half_even z < 2 ^ 53" by (simp only: of_int_less_iff)
      then have "round_half_even z \<le> 2 ^ 53 - 1" by simp
      then have "(of_int (round_half_even z) :: real) \<le> of_int (2 ^ 53 - 1)"
        by (simp only: of_int_le_iff)
      then have le: "of_int (round_half_even z) * 2 powi 971 \<le> (of_int (2 ^ 53 - 1) :: real) * 2 powi 971"
        by (rule mult_right_mono) simp
      have "b64 x = of_int (round_half_even z) * 2 powi 971"
        unfolding z_def
      proof (rule b64_eqI)
        show "2 powi (971 + 52) \<le> \<bar>x\<bar>" using ge by simp
        show "\<bar>x\<bar> < 2 powi (971 + 53)" using lt ge by (simp add: huge_def)
      qed simp
      moreover have "nearest x = b64 x" using ge by (simp add: nearest_def)
      ultimately have "nearest x \<le> (of_int (2 ^ 53 - 1) :: real) * 2 powi 971" using le by simp
      also have "\<dots> < 2 ^ 1024" by simp
      finally show False using n by simp
    qed
  qed
qed

lemma nearest_le_iff: "nearest x \<le> - (2 ^ 1024) \<longleftrightarrow> x \<le> - huge"
proof -
  have "nearest x \<le> - (2 ^ 1024) \<longleftrightarrow> 2 ^ 1024 \<le> nearest (- x)"
    by (simp only: nearest_minus le_minus_iff)
  also have "\<dots> \<longleftrightarrow> huge \<le> - x" by (rule nearest_ge_iff)
  also have "\<dots> \<longleftrightarrow> x \<le> - huge" by (rule le_minus_iff)
  finally show ?thesis .
qed

text \<open>Rounding to a float: when it is finite, when it is an infinity, when it is zero, and that it is monotone.\<close>

lemma huge_pos: "0 < huge"
  by (simp add: huge_def)

lemma to_double_cases:
  "to_double x = (if huge \<le> x then PInf else if x \<le> - huge then NInf else Fin (nearest x))"
  unfolding to_double_def Let_def nearest_ge_iff nearest_le_iff ..

lemma to_double_zero [simp]: "to_double 0 = Fin 0"
  using huge_pos by (simp add: to_double_cases nearest_zero)

lemma to_double_not_NaN [simp]: "to_double x \<noteq> NaN"
  by (simp add: to_double_cases)

lemma to_double_PInf_iff: "to_double x = PInf \<longleftrightarrow> huge \<le> x"
  by (simp add: to_double_cases)

lemma to_double_NInf_iff: "to_double x = NInf \<longleftrightarrow> x \<le> - huge"
  using huge_pos by (simp add: to_double_cases)

lemma to_double_Fin_iff: "(\<exists>y. to_double x = Fin y) \<longleftrightarrow> \<bar>x\<bar> < huge"
  using huge_pos by (auto simp: to_double_cases)

lemma to_double_Fin: "\<bar>x\<bar> < huge \<Longrightarrow> to_double x = Fin (nearest x)"
  by (auto simp: to_double_cases)

lemma to_double_eq_0_iff: "to_double x = Fin 0 \<longleftrightarrow> \<bar>x\<bar> \<le> tiny"
proof -
  have "tiny < huge"
  proof -
    have "tiny \<le> 2 powi 0" unfolding tiny_def by (intro powi2_mono) simp
    also have "\<dots> < huge" by (simp add: huge_def)
    finally show ?thesis .
  qed
  then show ?thesis
    by (auto simp: to_double_cases nearest_eq_0_iff)
qed

lemma to_double_mono: "x \<le> y \<Longrightarrow> fle (to_double x) (to_double y)"
  using huge_pos nearest_mono[of x y] by (auto simp: to_double_cases)

lemma to_double_nonneg: "0 \<le> x \<Longrightarrow> nonneg (to_double x)"
  using to_double_mono[of 0 x] by (simp add: nonneg_def)

lemma to_double_b64:
  assumes "2 powi (- 1022) \<le> \<bar>x\<bar>" "\<bar>x\<bar> \<le> 2 ^ 1023"
  shows "to_double x = Fin (b64 x)"
proof -
  have "(2::real) ^ 1023 < huge" by (simp add: huge_def)
  with assms(2) have "\<bar>x\<bar> < huge" by simp
  then show ?thesis using assms(1) by (simp add: to_double_Fin nearest_normal)
qed

text \<open>
  The rules that evaluate a rounding to a float from a significand \<open>m\<close> and an exponent
  \<open>e\<close> given in advance.
\<close>

lemma to_double_b64':
  assumes "2 powi (- 1022) \<le> \<bar>x\<bar>" "\<bar>b64 x\<bar> < 2 ^ 1024"
  shows "to_double x = Fin (b64 x)"
proof -
  have n: "nearest x = b64 x" using assms(1) by (rule nearest_normal)
  have "\<not> 2 ^ 1024 \<le> b64 x" "\<not> b64 x \<le> - (2 ^ 1024)" using assms(2) by linarith+
  then show ?thesis unfolding to_double_def Let_def n by (simp only: if_False)
qed

lemma to_double_evalI:
  assumes "y = of_int m * 2 powi e" and "- 1074 \<le> e" "e \<le> 971" "\<bar>m\<bar> < 2 ^ 53"
    and "2 powi (e + 52) \<le> \<bar>x\<bar>" "\<bar>x\<bar> < 2 powi (e + 53)"
    and "of_int m - 1/2 < x / 2 powi e" "x / 2 powi e < of_int m + 1/2"
  shows "to_double x = Fin y"
proof -
  have b: "b64 x = y" using assms(1,5,6,7,8) by (rule b64_evalI)
  have "(2::real) powi (- 1022) \<le> 2 powi (e + 52)" using assms(2) by (intro powi2_mono) simp
  with assms(5) have lo: "2 powi (- 1022) \<le> \<bar>x\<bar>" by simp
  have "\<bar>m\<bar> \<le> 2 ^ 53 - 1" using assms(4) by simp
  then have "(of_int \<bar>m\<bar> :: real) \<le> of_int (2 ^ 53 - 1)" by (simp only: of_int_le_iff)
  moreover have "(2::real) powi e \<le> 2 powi 971" using assms(3) by (rule powi2_mono)
  ultimately have "of_int \<bar>m\<bar> * 2 powi e \<le> (of_int (2 ^ 53 - 1) :: real) * 2 powi 971"
    by (intro mult_mono) simp_all
  also have "\<dots> < 2 ^ 1024" by simp
  finally have "\<bar>y\<bar> < 2 ^ 1024" by (simp add: assms(1) abs_mult)
  then show ?thesis using to_double_b64'[OF lo] by (simp only: b)
qed

lemma to_double_tieI:
  assumes "y = of_int m * 2 powi e" and "- 1074 \<le> e" "e \<le> 971" "\<bar>m\<bar> < 2 ^ 53"
    and "2 powi (e + 52) \<le> \<bar>x\<bar>" "\<bar>x\<bar> < 2 powi (e + 53)"
    and "x / 2 powi e = of_int k + 1/2" "m = (if even k then k else k + 1)"
  shows "to_double x = Fin y"
proof -
  have f: "\<lfloor>x / 2 powi e\<rfloor> = k" unfolding assms(7) by (intro floor_unique) simp_all
  have "round_half_even (x / 2 powi e) = m"
    unfolding round_half_even_def f Let_def assms(7,8) by simp
  with assms(5,6) have "b64 x = of_int m * 2 powi e" by (rule b64_eqI)
  then have b: "b64 x = y" by (simp only: assms(1))
  have "(2::real) powi (- 1022) \<le> 2 powi (e + 52)" using assms(2) by (intro powi2_mono) simp
  with assms(5) have lo: "2 powi (- 1022) \<le> \<bar>x\<bar>" by simp
  have "\<bar>m\<bar> \<le> 2 ^ 53 - 1" using assms(4) by simp
  then have "(of_int \<bar>m\<bar> :: real) \<le> of_int (2 ^ 53 - 1)" by (simp only: of_int_le_iff)
  moreover have "(2::real) powi e \<le> 2 powi 971" using assms(3) by (rule powi2_mono)
  ultimately have "of_int \<bar>m\<bar> * 2 powi e \<le> (of_int (2 ^ 53 - 1) :: real) * 2 powi 971"
    by (intro mult_mono) simp_all
  also have "\<dots> < 2 ^ 1024" by simp
  finally have "\<bar>y\<bar> < 2 ^ 1024" by (simp add: assms(1) abs_mult)
  then show ?thesis using to_double_b64'[OF lo] by (simp only: b)
qed

lemma to_double_sqrt_evalI:
  assumes "y = of_int m * 2 powi e" and "0 < m" and "- 1074 \<le> e" "e \<le> 970"
    and "2 powi (e + 52) * 2 powi (e + 52) \<le> x" "x < 2 powi (e + 53) * 2 powi (e + 53)"
    and "(of_int m - 1/2) * (of_int m - 1/2) < x / (2 powi e * 2 powi e)"
    and "x / (2 powi e * 2 powi e) < (of_int m + 1/2) * (of_int m + 1/2)"
  shows "to_double (sqrt x) = Fin y"
proof -
  have p: "(0::real) < 2 powi k" for k by simp
  have b: "b64 (sqrt x) = y" using assms(1,2,5,6,7,8) by (rule b64_sqrt_evalI)
  have x0: "0 \<le> x" using assms(5) p[of "e + 52"] by (meson less_imp_le mult_nonneg_nonneg order_trans)
  have a: "2 powi (e + 52) \<le> sqrt x"
    using assms(5) p[of "e + 52"] by (simp add: real_le_rsqrt power2_eq_square)
  have c: "sqrt x < 2 powi (e + 53)"
    using assms(6) x0 p[of "e + 53"] by (simp add: real_less_lsqrt less_imp_le power2_eq_square)
  have "(2::real) powi (- 1022) \<le> 2 powi (e + 52)" using assms(3) by (intro powi2_mono) simp
  with a have lo: "2 powi (- 1022) \<le> \<bar>sqrt x\<bar>" by simp
  have "(2::real) powi (e + 53) \<le> 2 powi 1023" using assms(4) by (intro powi2_mono) simp
  with c x0 have "\<bar>sqrt x\<bar> \<le> 2 ^ 1023" by simp
  with lo show ?thesis by (simp add: to_double_b64 b)
qed

lemma to_double_zeroI: "\<bar>x\<bar> \<le> 2 powi (- 1075) \<Longrightarrow> to_double x = Fin 0"
  by (simp add: to_double_eq_0_iff tiny_def)

lemma to_double_infI: "2 ^ 1024 \<le> x \<Longrightarrow> to_double x = PInf"
proof -
  assume "2 ^ 1024 \<le> x"
  moreover have "huge \<le> 2 ^ 1024" by (simp add: huge_def)
  ultimately show ?thesis by (simp add: to_double_PInf_iff)
qed

lemma rnd_ieee [simp]: "rnd (ieee P) = to_double"
  by (simp add: ieee_def)

lemma pow2_ieee [simp]: "pow2 (ieee P) = P"
  by (simp add: ieee_def)

lemma np_pi_ieee: "np_pi (ieee P) = 7074237752028440 / 2 ^ 51"
  unfolding ieee_def arith.select_convs
  by (rule b64_evalI[where m = 7074237752028440 and e = "-51"]) simp_all

lemma rnd_binary64: "rnd binary64 = to_double"
  by (simp add: binary64_def)

lemma pow2_binary64: "pow2 binary64 x = to_double (x * x)"
  by (simp add: binary64_def)

lemma np_pi_binary64: "np_pi binary64 = 7074237752028440 / 2 ^ 51"
  by (simp add: binary64_def np_pi_ieee)

lemma rnd_exact: "rnd exact x = Fin x"
  by (simp add: exact_def)

section \<open>Bounds of \<open>pi\<close>\<close>

text \<open>
  The exact reading of the Stokes-Einstein cell divides by \<open>pi\<close>. The arctangent series
  alternates with decreasing terms, so its partial sums enclose the arctangent; with
  Machin's formula four and five terms at \<open>1/5\<close> and one and two at \<open>1/239\<close> give
  \<open>pi\<close> to five decimals.
\<close>

lemma atn_term_decreasing:
  assumes "0 \<le> x" "x \<le> 1"
  shows "atn_term x (Suc k) \<le> atn_term x k"
proof -
  have "x ^ (Suc k * 2 + 1) \<le> x ^ (k * 2 + 1)"
    using assms by (intro power_decreasing) auto
  moreover have "1 / real (Suc k * 2 + 1) \<le> 1 / real (k * 2 + 1)"
    by (intro divide_left_mono) auto
  moreover have "0 \<le> x ^ (Suc k * 2 + 1)" "0 \<le> 1 / real (k * 2 + 1)"
    using assms by auto
  ultimately show ?thesis
    unfolding atn_term_def by (intro mult_mono) auto
qed

lemma arctan_partial_sums:
  assumes "0 \<le> x" "x \<le> 1"
  shows "(\<Sum>i<2 * n. (- 1) ^ i * atn_term x i) \<le> arctan x"
    and "arctan x \<le> (\<Sum>i<2 * n + 1. (- 1) ^ i * atn_term x i)"
proof -
  have ax: "\<bar>x\<bar> \<le> 1" using assms by simp
  have z: "atn_term x \<longlonglongrightarrow> 0"
    using zeroseq_arctan_series[OF ax] by (simp add: atn_term_def[abs_def])
  have p: "0 \<le> atn_term x k" for k using assms by (simp add: atn_term_def)
  have s: "arctan x = (\<Sum>k. (- 1) ^ k * atn_term x k)"
    using arctan_series[OF ax] by (simp add: atn_term_def)
  show "(\<Sum>i<2 * n. (- 1) ^ i * atn_term x i) \<le> arctan x"
    unfolding s by (rule summable_Leibniz'(2)[OF z p atn_term_decreasing[OF assms]])
  show "arctan x \<le> (\<Sum>i<2 * n + 1. (- 1) ^ i * atn_term x i)"
    unfolding s by (rule summable_Leibniz'(4)[OF z p atn_term_decreasing[OF assms]])
qed

lemma pi_bounds: "3.14159 < pi" "pi < 3.1416"
proof -
  have p: "pi = 16 * arctan (1/5) - 4 * arctan (1/239)" using machin by simp
  have l5: "(\<Sum>i<2 * 2. (- 1) ^ i * atn_term (1/5) i) \<le> arctan (1/5)"
    by (rule arctan_partial_sums) auto
  have u5: "arctan (1/5) \<le> (\<Sum>i<2 * 2 + 1. (- 1) ^ i * atn_term (1/5) i)"
    by (rule arctan_partial_sums) auto
  have l239: "(\<Sum>i<2 * 1. (- 1) ^ i * atn_term (1/239) i) \<le> arctan (1/239)"
    by (rule arctan_partial_sums) auto
  have u239: "arctan (1/239) \<le> (\<Sum>i<2 * 0 + 1. (- 1) ^ i * atn_term (1/239) i)"
    by (rule arctan_partial_sums) auto
  have n: "{..<4::nat} = {0, 1, 2, 3}" "{..<5::nat} = {0, 1, 2, 3, 4}" "{..<2::nat} = {0, 1}" by auto
  have "1.973955/10 \<le> (\<Sum>i<2 * 2. (- 1) ^ i * atn_term (1/5) i)"
    by (simp add: n atn_term_def power_divide)
  then have L5: "1.973955/10 \<le> arctan (1/5)" using l5 by (rule order_trans)
  have "(\<Sum>i<2 * 2 + 1. (- 1) ^ i * atn_term (1/5) i) \<le> 1.9739557/10"
    by (simp add: n atn_term_def power_divide)
  with u5 have U5: "arctan (1/5) \<le> 1.9739557/10" by (rule order_trans)
  have "4.184075/1000 \<le> (\<Sum>i<2 * 1. (- 1) ^ i * atn_term (1/239) i)"
    by (simp add: n atn_term_def power_divide)
  then have L239: "4.184075/1000 \<le> arctan (1/239)" using l239 by (rule order_trans)
  have "(\<Sum>i<2 * 0 + 1. (- 1) ^ i * atn_term (1/239) i) \<le> 4.18411/1000"
    by (simp add: atn_term_def power_divide)
  with u239 have U239: "arctan (1/239) \<le> 4.18411/1000" by (rule order_trans)
  show "3.14159 < pi" using L5 U239 unfolding p by simp
  show "pi < 3.1416" using U5 L239 unfolding p by simp
qed


section \<open>The operations of the notebook in binary64\<close>

text \<open>
  Each lemma is one rounding of the run: an operation on the doubles computed so far, and
  the double it returns, written \<open>m / 2 ^ k\<close> with its 53 bit significand \<open>m\<close> (or as a
  numeral when it is an integer). \<open>to_double_evalI\<close> checks it: the exact result, scaled
  by \<open>2 ^ k\<close>, lies between \<open>2 ^ 52\<close> and \<open>2 ^ 53\<close> and within half a unit of \<open>m\<close>,
  and the exponent is one of binary64.
\<close>

lemma b64_examples:
  "b64 0.1 = 3602879701896397 / 2 ^ 55" "b64 (1 / 3) = 6004799503160661 / 2 ^ 54"
  "b64 (- 0.1) = - (3602879701896397 / 2 ^ 55)" "b64 9007199254740993 = 9007199254740992"
  "b64 9007199254740995 = 9007199254740996"
proof -
  show p: "b64 0.1 = 3602879701896397 / 2 ^ 55"
    by (rule b64_evalI[where m = 7205759403792794 and e = "-56"]) simp_all
  show "b64 (1 / 3) = 6004799503160661 / 2 ^ 54"
    by (rule b64_evalI[where m = 6004799503160661 and e = "-54"]) simp_all
  show "b64 (- 0.1) = - (3602879701896397 / 2 ^ 55)"
    using p b64_minus[of "0.1"] by simp
  have t: "round_half_even (9007199254740993 / 2) = 4503599627370496"
    "round_half_even (9007199254740995 / 2) = 4503599627370498"
    by (simp_all add: round_half_even_def Let_def)
  show "b64 9007199254740993 = 9007199254740992"
    by (rule b64_eqI[where m = 4503599627370496 and e = 1, simplified]) (simp_all add: t)
  show "b64 9007199254740995 = 9007199254740996"
    by (rule b64_eqI[where m = 4503599627370498 and e = 1, simplified]) (simp_all add: t)
qed

lemma lit_binary64I: "to_double q = v \<Longrightarrow> lit binary64 q = v"
  by (simp add: lit_def rnd_binary64)

lemma int_to_float_binary64I: "to_double (of_int n) = Fin v \<Longrightarrow> int_to_float binary64 n = Inr (Fin v)"
  by (simp add: int_to_float_def rnd_binary64)

lemma fmul_binary64I: "to_double (x * y) = v \<Longrightarrow> fmul binary64 (Fin x) (Fin y) = v"
  by (simp add: rnd_binary64)

lemma fdiv_binary64I: "b \<noteq> 0 \<Longrightarrow> to_double (a / b) = v \<Longrightarrow> fdiv binary64 (Fin a) (Fin b) = Inr v"
  by (simp add: fdiv_def rnd_binary64)

lemma fsquare_binary64I:
  "x \<noteq> 0 \<Longrightarrow> to_double (x * x) = Fin v \<Longrightarrow> fsquare binary64 (Fin x) = Inr (Fin v)"
  by (simp add: pow2_binary64)

lemma np_mul_binary64I: "to_double (x * y) = v \<Longrightarrow> np_mul binary64 (Fin x) (Fin y) = v"
  by (simp add: np_mul_def rnd_binary64)

lemma np_sqrt_binary64I: "0 \<le> a \<Longrightarrow> to_double (sqrt a) = v \<Longrightarrow> np_sqrt binary64 (Fin a) = v"
  by (simp add: rnd_binary64)

text \<open>At the ends of the range: a square that underflows to zero or overflows, a product that overflows.\<close>

lemma fsquare_binary64_zeroI:
  "x \<noteq> 0 \<Longrightarrow> \<bar>x * x\<bar> \<le> 2 powi (- 1075) \<Longrightarrow> fsquare binary64 (Fin x) = Inr (Fin 0)"
  by (simp add: pow2_binary64 to_double_zeroI)

lemma fsquare_binary64_overflowI:
  "2 ^ 1024 \<le> x * x \<Longrightarrow> fsquare binary64 (Fin x) = Inl OverflowError"
proof -
  assume a: "2 ^ 1024 \<le> x * x"
  then have "x \<noteq> 0" by auto
  then show ?thesis using to_double_infI[OF a] by (simp add: pow2_binary64)
qed

lemma fmul_binary64_infI: "2 ^ 1024 \<le> x * y \<Longrightarrow> fmul binary64 (Fin x) (Fin y) = PInf"
  by (simp add: rnd_binary64 to_double_infI)

lemma fmul_binary64_zeroI: "\<bar>x * y\<bar> \<le> 2 powi (- 1075) \<Longrightarrow> fmul binary64 (Fin x) (Fin y) = Fin 0"
  by (simp add: rnd_binary64 to_double_zeroI)

lemma lit_d: "lit binary64 (5 / 10 ^ 9) = Fin (6044629098073146 / 2 ^ 80)"
  apply (rule lit_binary64I)
  apply (rule to_double_evalI[where m = 6044629098073146 and e = "-80"])
         apply simp_all
  done

lemma lit_milli: "lit binary64 (1.0 / 10 ^ 3) = Fin (4611686018427388 / 2 ^ 62)"
  apply (rule lit_binary64I)
  apply (rule to_double_evalI[where m = 4611686018427388 and e = "-62"])
         apply simp_all
  done

lemma lit_tau: "lit binary64 (1 / 10 ^ 3) = Fin (4611686018427388 / 2 ^ 62)"
  apply (rule lit_binary64I)
  apply (rule to_double_evalI[where m = 4611686018427388 and e = "-62"])
         apply simp_all
  done

lemma lit_kB: "lit binary64 (1.38 / 10 ^ 23) = Fin (4695896663508951 / 2 ^ 128)"
  apply (rule lit_binary64I)
  apply (rule to_double_evalI[where m = 4695896663508951 and e = "-128"])
         apply simp_all
  done

lemma lit_S_spot: "lit binary64 (0.8 / 10 ^ 6) = Fin (7555786372591432 / 2 ^ 73)"
  apply (rule lit_binary64I)
  apply (rule to_double_evalI[where m = 7555786372591432 and e = "-73"])
         apply simp_all
  done

lemma lit_space: "lit binary64 (0.1 / 10 ^ 3) = Fin (7378697629483821 / 2 ^ 66)"
  apply (rule lit_binary64I)
  apply (rule to_double_evalI[where m = 7378697629483821 and e = "-66"])
         apply simp_all
  done

lemma i2f_293: "int_to_float binary64 293 = Inr (Fin 293)"
  apply (rule int_to_float_binary64I)
  apply (rule to_double_evalI[where m = 5154510511013888 and e = "-44"])
         apply simp_all
  done

lemma i2f_3: "int_to_float binary64 3 = Inr (Fin 3)"
  apply (rule int_to_float_binary64I)
  apply (rule to_double_evalI[where m = 6755399441055744 and e = "-51"])
         apply simp_all
  done

lemma i2f_2: "int_to_float binary64 2 = Inr (Fin 2)"
  apply (rule int_to_float_binary64I)
  apply (rule to_double_evalI[where m = 4503599627370496 and e = "-51"])
         apply simp_all
  done

lemma i2f_2_3: "int_to_float binary64 (2 * 3) = Inr (Fin 6)"
  apply (rule int_to_float_binary64I)
  apply (rule to_double_evalI[where m = 6755399441055744 and e = "-50"])
         apply simp_all
  done

lemma lit_1e9: "lit binary64 (10 ^ 9) = Fin 1000000000"
  apply (rule lit_binary64I)
  apply (rule to_double_evalI[where m = 8388608000000000 and e = "-23"])
         apply simp_all
  done

lemma lit_1e6: "lit binary64 (10 ^ 6) = Fin 1000000"
  apply (rule lit_binary64I)
  apply (rule to_double_evalI[where m = 8589934592000000 and e = "-33"])
         apply simp_all
  done

lemma lit_1e3: "lit binary64 (10 ^ 3) = Fin 1000"
  apply (rule lit_binary64I)
  apply (rule to_double_evalI[where m = 8796093022208000 and e = "-43"])
         apply simp_all
  done

lemma lit_10: "lit binary64 10 = Fin 10"
  apply (rule lit_binary64I)
  apply (rule to_double_evalI[where m = 5629499534213120 and e = "-49"])
         apply simp_all
  done

lemma lit_1: "lit binary64 1 = Fin 1"
  apply (rule lit_binary64I)
  apply (rule to_double_evalI[where m = 4503599627370496 and e = "-52"])
         apply simp_all
  done

lemma stokes_num: "fmul binary64 (Fin (4695896663508951 / 2 ^ 128)) (Fin 293) = Fin (5374600478156729 / 2 ^ 120)"
  apply (rule fmul_binary64I)
  apply (rule to_double_evalI[where m = 5374600478156729 and e = "-120"])
         apply simp_all
  done

lemma stokes_den1: "fmul binary64 (Fin 3) (Fin (7074237752028440 / 2 ^ 51)) = Fin (5305678314021330 / 2 ^ 49)"
  apply (rule fmul_binary64I)
  apply (rule to_double_evalI[where m = 5305678314021330 and e = "-49"])
         apply simp_all
  done

lemma stokes_den2: "fmul binary64 (Fin (5305678314021330 / 2 ^ 49)) (Fin (4611686018427388 / 2 ^ 62)) = Fin (5433014593557842 / 2 ^ 59)"
  apply (rule fmul_binary64I)
  apply (rule to_double_evalI[where m = 5433014593557842 and e = "-59"])
         apply simp_all
  done

lemma stokes_den3: "fmul binary64 (Fin (5433014593557842 / 2 ^ 59)) (Fin (6044629098073146 / 2 ^ 80)) = Fin (7292068749381770 / 2 ^ 87)"
  apply (rule fmul_binary64I)
  apply (rule to_double_evalI[where m = 7292068749381770 and e = "-87"])
         apply simp_all
  done

lemma stokes_quot: "fdiv binary64 (Fin (5374600478156729 / 2 ^ 120)) (Fin (7292068749381770 / 2 ^ 87)) = Inr (Fin (6638732996790264 / 2 ^ 86))"
  apply (rule fdiv_binary64I)
   apply simp
  apply (rule to_double_evalI[where m = 6638732996790264 and e = "-86"])
         apply simp_all
  done

lemma sq_1e9: "fsquare binary64 (Fin 1000000000) = Inr (Fin 1000000000000000000)"
  apply (rule fsquare_binary64I)
   apply simp
  apply (rule to_double_evalI[where m = 7812500000000000 and e = "7"])
         apply simp_all
  done

lemma nm_mul: "fmul binary64 (Fin (6638732996790264 / 2 ^ 86)) (Fin 1000000000000000000) = Fin (5758182990136966 / 2 ^ 26)"
  apply (rule fmul_binary64I)
  apply (rule to_double_evalI[where m = 5758182990136966 and e = "-26"])
         apply simp_all
  done

lemma nm_quot: "fdiv binary64 (Fin (5758182990136966 / 2 ^ 26)) (Fin 1000000) = Inr (Fin (6037892487065859 / 2 ^ 46))"
  apply (rule fdiv_binary64I)
   apply simp
  apply (rule to_double_evalI[where m = 6037892487065859 and e = "-46"])
         apply simp_all
  done

lemma spot_sq: "fsquare binary64 (Fin (7555786372591432 / 2 ^ 73)) = Inr (Fin (6338253001141146 / 2 ^ 93))"
  apply (rule fsquare_binary64I)
   apply simp
  apply (rule to_double_evalI[where m = 6338253001141146 and e = "-93"])
         apply simp_all
  done

lemma spot_den: "fmul binary64 (Fin 6) (Fin (4611686018427388 / 2 ^ 62)) = Fin (6917529027641082 / 2 ^ 60)"
  apply (rule fmul_binary64I)
  apply (rule to_double_evalI[where m = 6917529027641082 and e = "-60"])
         apply simp_all
  done

lemma spot_quot: "fdiv binary64 (Fin (6338253001141146 / 2 ^ 93)) (Fin (6917529027641082 / 2 ^ 60)) = Inr (Fin (8252933595235867 / 2 ^ 86))"
  apply (rule fdiv_binary64I)
   apply simp
  apply (rule to_double_evalI[where m = 8252933595235867 and e = "-86"])
         apply simp_all
  done

lemma sq_1e6: "fsquare binary64 (Fin 1000000) = Inr (Fin 1000000000000)"
  apply (rule fsquare_binary64I)
   apply simp
  apply (rule to_double_evalI[where m = 8192000000000000 and e = "-13"])
         apply simp_all
  done

lemma um_mul: "fmul binary64 (Fin (8252933595235867 / 2 ^ 86)) (Fin 1000000000000) = Fin (7505999378950825 / 2 ^ 46)"
  apply (rule fmul_binary64I)
  apply (rule to_double_evalI[where m = 7505999378950825 and e = "-46"])
         apply simp_all
  done

lemma um_quot: "fdiv binary64 (Fin (7505999378950825 / 2 ^ 46)) (Fin 1000) = Inr (Fin (7686143364045645 / 2 ^ 56))"
  apply (rule fdiv_binary64I)
   apply simp
  apply (rule to_double_evalI[where m = 7686143364045645 and e = "-56"])
         apply simp_all
  done

lemma two_D: "fmul binary64 (Fin 2) (Fin (8252933595235867 / 2 ^ 86)) = Fin (8252933595235867 / 2 ^ 85)"
  apply (rule fmul_binary64I)
  apply (rule to_double_evalI[where m = 8252933595235867 and e = "-85"])
         apply simp_all
  done

lemma two_D_3: "fmul binary64 (Fin (8252933595235867 / 2 ^ 85)) (Fin 3) = Fin (6189700196426900 / 2 ^ 83)"
  apply (rule fmul_binary64I)
  apply (rule to_double_evalI[where m = 6189700196426900 and e = "-83"])
         apply simp_all
  done

lemma sigma_rad: "fmul binary64 (Fin (6189700196426900 / 2 ^ 83)) (Fin 10) = Fin (7737125245533625 / 2 ^ 80)"
  apply (rule fmul_binary64I)
  apply (rule to_double_evalI[where m = 7737125245533625 and e = "-80"])
         apply simp_all
  done

lemma sigma_sqrt: "np_sqrt binary64 (Fin (7737125245533625 / 2 ^ 80)) = Fin (5902958103587056 / 2 ^ 66)"
  apply (rule np_sqrt_binary64I)
   apply simp
  apply (rule to_double_sqrt_evalI[where m = 5902958103587056 and e = "-66"])
         apply simp_all
  done

lemma sigma_um: "np_mul binary64 (Fin (5902958103587056 / 2 ^ 66)) (Fin 1000000) = Fin 80"
  apply (rule np_mul_binary64I)
  apply (rule to_double_evalI[where m = 5629499534213120 and e = "-46"])
         apply simp_all
  done

lemma space_sq: "fsquare binary64 (Fin (7378697629483821 / 2 ^ 66)) = Inr (Fin (6044629098073146 / 2 ^ 79))"
  apply (rule fsquare_binary64I)
   apply simp
  apply (rule to_double_evalI[where m = 6044629098073146 and e = "-79"])
         apply simp_all
  done

lemma one_space_sq: "fmul binary64 (Fin 1) (Fin (6044629098073146 / 2 ^ 79)) = Fin (6044629098073146 / 2 ^ 79)"
  apply (rule fmul_binary64I)
  apply (rule to_double_evalI[where m = 6044629098073146 and e = "-79"])
         apply simp_all
  done

lemma time_quot: "fdiv binary64 (Fin (6044629098073146 / 2 ^ 79)) (Fin (6189700196426900 / 2 ^ 83)) = Inr (Fin (8796093022208002 / 2 ^ 49))"
  apply (rule fdiv_binary64I)
   apply simp
  apply (rule to_double_evalI[where m = 8796093022208002 and e = "-49"])
         apply simp_all
  done

lemma space_um: "fmul binary64 (Fin (7378697629483821 / 2 ^ 66)) (Fin 1000000) = Fin 100"
  apply (rule fmul_binary64I)
  apply (rule to_double_evalI[where m = 7036874417766400 and e = "-46"])
         apply simp_all
  done

text \<open>
  What the last two cells would compute from the value of the Stokes-Einstein cell,
  had the name \<open>D\<close> still held it: another \<open>sigma\<close> and another \<open>time\<close>.
\<close>

lemma se_two_D: "fmul binary64 (Fin 2) (Fin (6638732996790264 / 2 ^ 86)) = Fin (6638732996790264 / 2 ^ 85)"
  apply (rule fmul_binary64I)
  apply (rule to_double_evalI[where m = 6638732996790264 and e = "-85"])
         apply simp_all
  done

lemma se_two_D_3: "fmul binary64 (Fin (6638732996790264 / 2 ^ 85)) (Fin 3) = Fin (4979049747592698 / 2 ^ 83)"
  apply (rule fmul_binary64I)
  apply (rule to_double_evalI[where m = 4979049747592698 and e = "-83"])
         apply simp_all
  done

lemma se_sigma_rad: "fmul binary64 (Fin (4979049747592698 / 2 ^ 83)) (Fin 10) = Fin (6223812184490872 / 2 ^ 80)"
  apply (rule fmul_binary64I)
  apply (rule to_double_tieI[where m = 6223812184490872 and e = "-80" and k = 6223812184490872])
         apply simp_all
  done

lemma se_sigma_sqrt: "np_sqrt binary64 (Fin (6223812184490872 / 2 ^ 80)) = Fin (5294294876080954 / 2 ^ 66)"
  apply (rule np_sqrt_binary64I)
   apply simp
  apply (rule to_double_sqrt_evalI[where m = 5294294876080954 and e = "-66"])
         apply simp_all
  done

lemma se_time_quot: "fdiv binary64 (Fin (6044629098073146 / 2 ^ 79)) (Fin (4979049747592698 / 2 ^ 83)) = Inr (Fin (5467426664462797 / 2 ^ 48))"
  apply (rule fdiv_binary64I)
   apply simp
  apply (rule to_double_evalI[where m = 5467426664462797 and e = "-48"])
         apply simp_all
  done

text \<open>
  A round trip in binary64, from the notebook's \<open>sigma\<close> to a time and back, and the way
  back from \<open>nm^2/us\<close> to \<open>m^2/s\<close>, a multiplication by the literal \<^verbatim>\<open>1e-12\<close>.
\<close>

lemma rt_sq: "fsquare binary64 (Fin (5902958103587056 / 2 ^ 66)) = Inr (Fin (7737125245533625 / 2 ^ 80))"
  apply (rule fsquare_binary64I)
   apply simp
  apply (rule to_double_evalI[where m = 7737125245533625 and e = "-80"])
         apply simp_all
  done

lemma rt_one: "fmul binary64 (Fin 1) (Fin (7737125245533625 / 2 ^ 80)) = Fin (7737125245533625 / 2 ^ 80)"
  apply (rule fmul_binary64I)
  apply (rule to_double_evalI[where m = 7737125245533625 and e = "-80"])
         apply simp_all
  done

lemma rt_quot: "fdiv binary64 (Fin (7737125245533625 / 2 ^ 80)) (Fin (6189700196426900 / 2 ^ 83)) = Inr (Fin 10)"
  apply (rule fdiv_binary64I)
   apply simp
  apply (rule to_double_evalI[where m = 5629499534213120 and e = "-49"])
         apply simp_all
  done

lemma rt_rad: "fmul binary64 (Fin (6189700196426900 / 2 ^ 83)) (Fin 10) = Fin (7737125245533625 / 2 ^ 80)"
  apply (rule fmul_binary64I)
  apply (rule to_double_evalI[where m = 7737125245533625 and e = "-80"])
         apply simp_all
  done

lemma rt_sqrt: "np_sqrt binary64 (Fin (7737125245533625 / 2 ^ 80)) = Fin (5902958103587056 / 2 ^ 66)"
  apply (rule np_sqrt_binary64I)
   apply simp
  apply (rule to_double_sqrt_evalI[where m = 5902958103587056 and e = "-66"])
         apply simp_all
  done

lemma lit_1em12: "lit binary64 (1 / 10 ^ 12) = Fin (4951760157141521 / 2 ^ 92)"
  apply (rule lit_binary64I)
  apply (rule to_double_evalI[where m = 4951760157141521 and e = "-92"])
         apply simp_all
  done

lemma nm_back: "fmul binary64 (Fin (6037892487065859 / 2 ^ 46)) (Fin (4951760157141521 / 2 ^ 92)) = Fin (6638732996790264 / 2 ^ 86)"
  apply (rule fmul_binary64I)
  apply (rule to_double_evalI[where m = 6638732996790264 and e = "-86"])
         apply simp_all
  done

lemma lit_1em9: "lit binary64 (1 / 10 ^ 9) = Fin (4835703278458517 / 2 ^ 82)"
  apply (rule lit_binary64I)
  apply (rule to_double_evalI[where m = 4835703278458517 and e = "-82"])
         apply simp_all
  done

lemma um_back: "fmul binary64 (Fin (7686143364045645 / 2 ^ 56)) (Fin (4835703278458517 / 2 ^ 82)) = Fin (8252933595235867 / 2 ^ 86)"
  apply (rule fmul_binary64I)
  apply (rule to_double_evalI[where m = 8252933595235867 and e = "-86"])
         apply simp_all
  done

text \<open>
  Rounding can merge neighbours: \<^verbatim>\<open>1.96875\<close> is a double and \<^verbatim>\<open>1.9687500000000002\<close>
  reads as the next double above it; with \<open>S_spot = 1.0\<close> and \<open>N = 1\<close> the exact
  quotients \<open>1 / (2 * tau_spot)\<close> of the two lie about a quarter of a unit in the last
  place on either side of one double, and the spot formula returns that double for both.
\<close>

lemma lit_tau_a: "lit binary64 (1.96875) = Fin (8866461766385664 / 2 ^ 52)"
  apply (rule lit_binary64I)
  apply (rule to_double_evalI[where m = 8866461766385664 and e = "-52"])
         apply simp_all
  done

lemma lit_tau_b: "lit binary64 (1.9687500000000002) = Fin (8866461766385665 / 2 ^ 52)"
  apply (rule lit_binary64I)
  apply (rule to_double_evalI[where m = 8866461766385665 and e = "-52"])
         apply simp_all
  done

lemma i2f_2_1: "int_to_float binary64 (2 * 1) = Inr (Fin 2)"
  apply (rule int_to_float_binary64I)
  apply (rule to_double_evalI[where m = 4503599627370496 and e = "-51"])
         apply simp_all
  done

lemma sq_1: "fsquare binary64 (Fin 1) = Inr (Fin 1)"
  apply (rule fsquare_binary64I)
   apply simp
  apply (rule to_double_evalI[where m = 4503599627370496 and e = "-52"])
         apply simp_all
  done

lemma merge_den_a: "fmul binary64 (Fin 2) (Fin (8866461766385664 / 2 ^ 52)) = Fin (8866461766385664 / 2 ^ 51)"
  apply (rule fmul_binary64I)
  apply (rule to_double_evalI[where m = 8866461766385664 and e = "-51"])
         apply simp_all
  done

lemma merge_den_b: "fmul binary64 (Fin 2) (Fin (8866461766385665 / 2 ^ 52)) = Fin (8866461766385665 / 2 ^ 51)"
  apply (rule fmul_binary64I)
  apply (rule to_double_evalI[where m = 8866461766385665 and e = "-51"])
         apply simp_all
  done

lemma merge_quot_a: "fdiv binary64 (Fin 1) (Fin (8866461766385664 / 2 ^ 51)) = Inr (Fin (4575085335741456 / 2 ^ 54))"
  apply (rule fdiv_binary64I)
   apply simp
  apply (rule to_double_evalI[where m = 4575085335741456 and e = "-54"])
         apply simp_all
  done

lemma merge_quot_b: "fdiv binary64 (Fin 1) (Fin (8866461766385665 / 2 ^ 51)) = Inr (Fin (4575085335741456 / 2 ^ 54))"
  apply (rule fdiv_binary64I)
   apply simp
  apply (rule to_double_evalI[where m = 4575085335741456 and e = "-54"])
         apply simp_all
  done

text \<open>
  Literals near the ends of the range of binary64, for what the formulas do there.
\<close>

lemma lit_1e308: "lit binary64 (10 ^ 308) = Fin (5010420900022432 * 2 ^ 971)"
  apply (rule lit_binary64I)
  apply (rule to_double_evalI[where m = 5010420900022432 and e = "971"])
         apply simp_all
  done

lemma lit_1e300: "lit binary64 (10 ^ 300) = Fin (6724873095247260 * 2 ^ 944)"
  apply (rule lit_binary64I)
  apply (rule to_double_evalI[where m = 6724873095247260 and e = "944"])
         apply simp_all
  done

lemma lit_1e200: "lit binary64 (10 ^ 200) = Fin (5883593420661338 * 2 ^ 612)"
  apply (rule lit_binary64I)
  apply (rule to_double_evalI[where m = 5883593420661338 and e = "612"])
         apply simp_all
  done

lemma lit_1em200: "lit binary64 (1 / 10 ^ 200) = Fin (6894565328877484 / 2 ^ 717)"
  apply (rule lit_binary64I)
  apply (rule to_double_evalI[where m = 6894565328877484 and e = "-717"])
         apply simp_all
  done

lemma small_den2: "fmul binary64 (Fin (5305678314021330 / 2 ^ 49)) (Fin (6894565328877484 / 2 ^ 717)) = Fin (8122468420086150 / 2 ^ 714)"
  apply (rule fmul_binary64I)
  apply (rule to_double_evalI[where m = 8122468420086150 and e = "-714"])
         apply simp_all
  done

lemma sq_1em200: "fsquare binary64 (Fin (6894565328877484 / 2 ^ 717)) = Inr (Fin 0)"
  by (rule fsquare_binary64_zeroI) simp_all

lemma sq_1e200: "fsquare binary64 (Fin (5883593420661338 * 2 ^ 612)) = Inl OverflowError"
  by (rule fsquare_binary64_overflowI) simp

lemma small_den3: "fmul binary64 (Fin (8122468420086150 / 2 ^ 714)) (Fin (6894565328877484 / 2 ^ 717)) = Fin 0"
  by (rule fmul_binary64_zeroI) simp

lemma two_1e308: "fmul binary64 (Fin 2) (Fin (5010420900022432 * 2 ^ 971)) = PInf"
  by (rule fmul_binary64_infI) simp

lemma six_1e308: "fmul binary64 (Fin 6) (Fin (5010420900022432 * 2 ^ 971)) = PInf"
  by (rule fmul_binary64_infI) simp

lemma big_nm_mul: "fmul binary64 (Fin (6724873095247260 * 2 ^ 944)) (Fin 1000000000000000000) = PInf"
  by (rule fmul_binary64_infI) simp

lemma big_um_mul: "fmul binary64 (Fin (6724873095247260 * 2 ^ 944)) (Fin 1000000000000) = PInf"
  by (rule fmul_binary64_infI) simp

text \<open>
  The notebook stores the outputs of its first four cells as the decimals
  \<^verbatim>\<open>8.580361291970262e-11\<close>, \<^verbatim>\<open>85.80361291970262\<close>, \<^verbatim>\<open>1.0666666666666665e-10\<close> and
  \<^verbatim>\<open>0.10666666666666665\<close>. Each of them reads back as the double computed above for its
  cell.
\<close>

lemma out_2: "lit binary64 (8.580361291970262 / 10 ^ 11) = Fin (6638732996790264 / 2 ^ 86)"
  apply (rule lit_binary64I)
  apply (rule to_double_evalI[where m = 6638732996790264 and e = "-86"])
         apply simp_all
  done

lemma out_3: "lit binary64 (85.80361291970262) = Fin (6037892487065859 / 2 ^ 46)"
  apply (rule lit_binary64I)
  apply (rule to_double_evalI[where m = 6037892487065859 and e = "-46"])
         apply simp_all
  done

lemma out_4: "lit binary64 (1.0666666666666665 / 10 ^ 10) = Fin (8252933595235867 / 2 ^ 86)"
  apply (rule lit_binary64I)
  apply (rule to_double_evalI[where m = 8252933595235867 and e = "-86"])
         apply simp_all
  done

lemma out_5: "lit binary64 (0.10666666666666665) = Fin (7686143364045645 / 2 ^ 56)"
  apply (rule lit_binary64I)
  apply (rule to_double_evalI[where m = 7686143364045645 and e = "-56"])
         apply simp_all
  done

text \<open>
  Every double of the run, the literals and \<^verbatim>\<open>numpy.pi\<close> included, lies in the normal
  range of binary64.
\<close>

lemma run_values_normal:
  "list_all normal_range
    [6044629098073146 / 2 ^ 80,
     4611686018427388 / 2 ^ 62,
     4695896663508951 / 2 ^ 128,
     7555786372591432 / 2 ^ 73,
     7378697629483821 / 2 ^ 66,
     7074237752028440 / 2 ^ 51,
     5374600478156729 / 2 ^ 120,
     5305678314021330 / 2 ^ 49,
     5433014593557842 / 2 ^ 59,
     7292068749381770 / 2 ^ 87,
     6638732996790264 / 2 ^ 86,
     1000000000000000000,
     5758182990136966 / 2 ^ 26,
     6037892487065859 / 2 ^ 46,
     6338253001141146 / 2 ^ 93,
     6917529027641082 / 2 ^ 60,
     8252933595235867 / 2 ^ 86,
     1000000000000,
     7505999378950825 / 2 ^ 46,
     7686143364045645 / 2 ^ 56,
     8252933595235867 / 2 ^ 85,
     6189700196426900 / 2 ^ 83,
     7737125245533625 / 2 ^ 80,
     5902958103587056 / 2 ^ 66,
     80,
     6044629098073146 / 2 ^ 79,
     8796093022208002 / 2 ^ 49,
     100,
     293,
     3,
     2,
     6,
     1000000000,
     1000000,
     1000,
     10,
     1]"
  by (simp add: normal_range_def)


text \<open>What the operations do with infinities, NaNs and zero.\<close>

lemma float_special_values:
  "fmul binary64 PInf (Fin 0) = NaN" "fmul binary64 PInf (Fin 3) = PInf"
  "fmul binary64 NInf (Fin 3) = NInf" "fmul binary64 PInf NInf = NInf"
  "fdiv binary64 NaN (Fin 0) = Inl ZeroDivisionError"
  "fdiv binary64 PInf (Fin 0) = Inl ZeroDivisionError"
  "fdiv binary64 (Fin 1) PInf = Inr (Fin 0)" "fdiv binary64 PInf PInf = Inr NaN"
  "fdiv binary64 PInf (Fin 2) = Inr PInf" "fdiv binary64 PInf (Fin (- 2)) = Inr NInf"
  "fsquare binary64 PInf = Inr PInf" "fsquare binary64 NInf = Inr PInf"
  "fsquare binary64 NaN = Inr NaN" "fsquare binary64 (Fin 0) = Inr (Fin 0)"
  "np_sqrt binary64 PInf = PInf" "np_sqrt binary64 NInf = NaN"
  "np_sqrt binary64 (Fin (- 1)) = NaN"
  "fmt_py 2 PInf = ''inf''" "fmt_py 2 NInf = ''-inf''" "fmt_py 2 NaN = ''nan''"
  by (simp_all add: fdiv_def inf_of_def fmt_py_def)

lemma int_to_float_too_large: "int_to_float binary64 (10 ^ 400) = Inl OverflowError"
proof -
  have "to_double (10 ^ 400) = PInf" by (rule to_double_infI) simp
  then show ?thesis by (simp add: int_to_float_def rnd_binary64)
qed

text \<open>The auxiliary predicates at a few points, where they hold and where they do not.\<close>

lemma auxiliary_examples:
  "fle (Fin 1) (Fin 2)" "\<not> fle (Fin 2) (Fin 1)" "\<not> fle NaN NaN" "fle NInf PInf"
  "\<not> fle PInf (Fin 1)" "nonneg (Fin 0)" "\<not> nonneg (Fin (- 1))" "\<not> nonneg NaN"
  "\<not> nonneg NInf" "window 0 1 1.5" "\<not> window 0 1 3" "\<not> window 0 1 0"
  "overflows (\<lambda>x. PInf) 2" "\<not> overflows (\<lambda>x. PInf) 0" "\<not> overflows (\<lambda>x. Fin 4) 2"
  by (simp_all add: nonneg_def window_def overflows_def)

lemma auxiliary_counterexamples:
  "\<not> pow_within (\<lambda>x. Fin 0) (1 / 2)"
  "\<not> pow_within (\<lambda>x. NaN) (1 / 2)"
  "\<not> monotone_rounding \<lparr>rnd = (\<lambda>x. Fin (- x)), np_pi = 0, pow2 = (\<lambda>x. Fin 0)\<rparr>"
  "\<not> monotone_rounding \<lparr>rnd = (\<lambda>x. NaN), np_pi = 0, pow2 = (\<lambda>x. Fin 0)\<rparr>"
  "\<not> accurate (\<lambda>x. 0) (1 / 2)"
proof -
  have w: "window (- 1022) 1023 (1 * 1)"
    using powi2_mono[of "- 1022" 0] powi2_mono[of 0 1023] by (simp add: window_def)
  show "\<not> pow_within (\<lambda>x. Fin 0) (1 / 2)"
  proof
    assume "pow_within (\<lambda>x. Fin 0) (1 / 2)"
    then have "\<exists>y. Fin 0 = Fin y \<and> \<bar>y - 1 * 1\<bar> \<le> 1 / 2 * (1 * 1)"
      using w unfolding pow_within_def by (metis zero_less_one)
    then show False by auto
  qed
  show "\<not> pow_within (\<lambda>x. NaN) (1 / 2)"
    by (auto simp: pow_within_def nonneg_def intro: exI[of _ 1])
  show "\<not> monotone_rounding \<lparr>rnd = (\<lambda>x. Fin (- x)), np_pi = 0, pow2 = (\<lambda>x. Fin 0)\<rparr>"
  proof
    assume "monotone_rounding \<lparr>rnd = (\<lambda>x. Fin (- x)), np_pi = 0, pow2 = (\<lambda>x. Fin 0)\<rparr>"
    then have "fle (Fin (- 0)) (Fin (- 1))"
      unfolding monotone_rounding_def by (metis arith.select_convs(1) zero_le_one)
    then show False by simp
  qed
  show "\<not> monotone_rounding \<lparr>rnd = (\<lambda>x. NaN), np_pi = 0, pow2 = (\<lambda>x. Fin 0)\<rparr>"
    by (simp add: monotone_rounding_def)
  show "\<not> accurate (\<lambda>x. 0) (1 / 2)"
    by (auto simp: accurate_def intro!: exI[of _ 1])
qed

section \<open>The cells in binary64\<close>

lemma seq_Inr: "seq (Inr v) f = f v"
  by (simp add: seq_def)

lemma seq_Inl: "seq (Inl e) f = Inl e"
  by (simp add: seq_def)

lemma name_Some: "name (Some x) = Inr x"
  by (simp add: name_def)

lemma fmt_f_examples:
  "fmt_f 2 (- 0.001) = ''-0.00''" "fmt_f 1 0.25 = ''0.2''" "fmt_f 1 0.75 = ''0.8''"
  "fmt_f 0 2.5 = ''2''" "fmt_f 3 1234.5625 = ''1234.562''" "fmt_f 2 0.05 = ''0.05''"
proof -
  have r: "round_half_even (1 / 10) = 0" "round_half_even (5 / 2) = 2"
    "round_half_even (15 / 2) = 8" "round_half_even (2469125 / 2) = 1234562"
    by (simp_all add: round_half_even_def Let_def)
  show "fmt_f 2 (- 0.001) = ''-0.00''" "fmt_f 1 0.25 = ''0.2''" "fmt_f 1 0.75 = ''0.8''"
    "fmt_f 0 2.5 = ''2''" "fmt_f 3 1234.5625 = ''1234.562''" "fmt_f 2 0.05 = ''0.05''"
    by (simp_all add: fmt_f_def zero_pad_def r)
qed

lemma fmt_80: "fmt_f 2 80 = ''80.00''"
  by (simp add: fmt_f_def zero_pad_def)

lemma fmt_100: "fmt_f 1 100 = ''100.0''"
  by (simp add: fmt_f_def zero_pad_def)

lemma fmt_time_binary64: "fmt_f 1 (8796093022208002 / 2 ^ 49) = ''15.6''"
proof -
  have "round_half_even (\<bar>8796093022208002 / 2 ^ 49\<bar> * 10 ^ 1) = 156"
    by (rule rhe_eqI) simp_all
  then show ?thesis by (simp add: fmt_f_def zero_pad_def)
qed

lemma fmt_time_exact: "fmt_f 1 (125 / 8) = ''15.6''"
proof -
  have "round_half_even (\<bar>125 / 8\<bar> * 10 ^ 1) = 156"
    by (rule rhe_eqI) simp_all
  then show ?thesis by (simp add: fmt_f_def zero_pad_def)
qed

text \<open>The formulas at the literals of their cells, then the cells, then the whole run: the doubles it leaves in the kernel, the values it displays and the lines it prints.\<close>

lemma D_stokes_binary64:
  "D_stokes_einstein binary64 (lit binary64 (1.38 / 10 ^ 23)) 293
     (lit binary64 (1.0 / 10 ^ 3)) (lit binary64 (5 / 10 ^ 9)) = Inr (Fin (6638732996790264 / 2 ^ 86))"
  unfolding D_stokes_einstein_def
  by (simp only: lit_kB i2f_293 lit_milli lit_d i2f_3 seq_Inr np_pi_binary64
        stokes_num stokes_den1 stokes_den2 stokes_den3 stokes_quot)

lemma rescale_nm_binary64:
  "rescale binary64 (Fin (6638732996790264 / 2 ^ 86)) (lit binary64 (10 ^ 9)) (lit binary64 (10 ^ 6)) =
     Inr (Fin (6037892487065859 / 2 ^ 46))"
  unfolding rescale_def by (simp only: lit_1e9 lit_1e6 sq_1e9 seq_Inr nm_mul nm_quot)

lemma D_spot_binary64:
  "D_spot binary64 (lit binary64 (0.8 / 10 ^ 6)) 3 (lit binary64 (1 / 10 ^ 3)) =
     Inr (Fin (8252933595235867 / 2 ^ 86))"
  unfolding D_spot_def by (simp only: lit_S_spot lit_tau i2f_2_3 spot_sq seq_Inr spot_den spot_quot)

lemma rescale_um_binary64:
  "rescale binary64 (Fin (8252933595235867 / 2 ^ 86)) (lit binary64 (10 ^ 6)) (lit binary64 (10 ^ 3)) =
     Inr (Fin (7686143364045645 / 2 ^ 56))"
  unfolding rescale_def by (simp only: lit_1e6 lit_1e3 sq_1e6 seq_Inr um_mul um_quot)

lemma two_D_N_binary64: "two_D_N binary64 (Fin (8252933595235867 / 2 ^ 86)) 3 = Inr (Fin (6189700196426900 / 2 ^ 83))"
  unfolding two_D_N_def by (simp only: i2f_2 i2f_3 seq_Inr two_D two_D_3)

lemma sigma_binary64:
  "sigma_displacement binary64 (Fin (8252933595235867 / 2 ^ 86)) 3 (lit binary64 10) = Inr (Fin (5902958103587056 / 2 ^ 66))"
  unfolding sigma_displacement_def
  by (simp only: two_D_N_binary64 seq_Inr lit_10 sigma_rad sigma_sqrt)

lemma time_binary64:
  "diffusion_time binary64 (lit binary64 (0.1 / 10 ^ 3)) (Fin (8252933595235867 / 2 ^ 86)) 3 = Inr (Fin (8796093022208002 / 2 ^ 49))"
  unfolding diffusion_time_def
  by (simp only: two_D_N_binary64 lit_space lit_1 space_sq seq_Inr one_space_sq time_quot)

lemma cell_stokes_binary64:
  "cell_stokes binary64 st =
     Inr (st\<lparr>v_d := Some (Fin (6044629098073146 / 2 ^ 80)),
            v_eta := Some (Fin (4611686018427388 / 2 ^ 62)),
            v_kB := Some (Fin (4695896663508951 / 2 ^ 128)), v_T := Some 293,
            v_D := Some (Fin (6638732996790264 / 2 ^ 86)),
            shown := shown st @ [Fin (6638732996790264 / 2 ^ 86)]\<rparr>)"
  unfolding cell_stokes_def Let_def D_stokes_binary64 seq_Inr
  by (simp only: lit_kB lit_milli lit_d) simp

lemma cell_Du_nm_binary64:
  "v_D st = Some (Fin (6638732996790264 / 2 ^ 86)) \<Longrightarrow>
   cell_Du_nm binary64 st =
     Inr (st\<lparr>v_Du := Some (Fin (6037892487065859 / 2 ^ 46)),
            shown := shown st @ [Fin (6037892487065859 / 2 ^ 46)]\<rparr>)"
  unfolding cell_Du_nm_def by (simp only: name_Some seq_Inr rescale_nm_binary64)

lemma cell_spot_binary64:
  "cell_spot binary64 st =
     Inr (st\<lparr>v_S_spot := Some (Fin (7555786372591432 / 2 ^ 73)), v_N := Some 3,
            v_tau_spot := Some (Fin (4611686018427388 / 2 ^ 62)),
            v_D := Some (Fin (8252933595235867 / 2 ^ 86)),
            shown := shown st @ [Fin (8252933595235867 / 2 ^ 86)]\<rparr>)"
  unfolding cell_spot_def Let_def D_spot_binary64 seq_Inr
  by (simp only: lit_S_spot lit_tau) simp

lemma cell_Du_um_binary64:
  "v_D st = Some (Fin (8252933595235867 / 2 ^ 86)) \<Longrightarrow>
   cell_Du_um binary64 st =
     Inr (st\<lparr>v_Du := Some (Fin (7686143364045645 / 2 ^ 56)),
            shown := shown st @ [Fin (7686143364045645 / 2 ^ 56)]\<rparr>)"
  unfolding cell_Du_um_def by (simp only: name_Some seq_Inr rescale_um_binary64)

lemma cell_sigma_binary64:
  assumes "v_D st = Some (Fin (8252933595235867 / 2 ^ 86))"
  shows "cell_sigma binary64 st =
     Inr (st\<lparr>v_time := Some (Fin 10), v_sigma := Some (Fin (5902958103587056 / 2 ^ 66)),
            stdout := stdout st @ [''Displacement (std_dev): 80.00 um'']\<rparr>)"
proof -
  have D: "v_D (st\<lparr>v_time := Some (Fin 10)\<rparr>) = Some (Fin (8252933595235867 / 2 ^ 86))"
    using assms by simp
  have "cell_sigma binary64 st =
     Inr (st\<lparr>v_time := Some (Fin 10), v_sigma := Some (Fin (5902958103587056 / 2 ^ 66)),
            stdout := stdout (st\<lparr>v_time := Some (Fin 10)\<rparr>) @
              [''Displacement (std_dev): '' @ fmt_py 2 (Fin 80) @ '' um'']\<rparr>)"
    unfolding cell_sigma_def Let_def
    by (simp only: lit_10 D name_Some seq_Inr sigma_binary64[unfolded lit_10] lit_1e6 sigma_um)
  then show ?thesis unfolding fmt_py_def pyfloat.case fmt_80 by simp
qed

lemma cell_time_binary64:
  assumes "v_D st = Some (Fin (8252933595235867 / 2 ^ 86))"
  shows "cell_time binary64 st =
     Inr (st\<lparr>v_space := Some (Fin (7378697629483821 / 2 ^ 66)),
            v_time := Some (Fin (8796093022208002 / 2 ^ 49)),
            stdout := stdout st @ [''Time for 100.0 um displacement: 15.6 s'']\<rparr>)"
proof -
  let ?st1 = "st\<lparr>v_space := Some (Fin (7378697629483821 / 2 ^ 66))\<rparr>"
  have D: "v_D ?st1 = Some (Fin (8252933595235867 / 2 ^ 86))"
    using assms by simp
  have "cell_time binary64 st =
     Inr (?st1\<lparr>v_time := Some (Fin (8796093022208002 / 2 ^ 49)),
            stdout := stdout ?st1 @
              [''Time for '' @ fmt_py 1 (Fin 100) @ '' um displacement: '' @
               fmt_py 1 (Fin (8796093022208002 / 2 ^ 49)) @ '' s'']\<rparr>)"
    unfolding cell_time_def Let_def
    by (simp only: lit_space D name_Some seq_Inr time_binary64[unfolded lit_space] lit_1e6 space_um)
  then show ?thesis unfolding fmt_py_def pyfloat.case fmt_100 fmt_time_binary64 by simp
qed

lemma run_notebook_binary64:
  "run_notebook binary64 =
     Inr \<lparr>v_d = Some (Fin (6044629098073146 / 2 ^ 80)),
          v_eta = Some (Fin (4611686018427388 / 2 ^ 62)),
          v_kB = Some (Fin (4695896663508951 / 2 ^ 128)), v_T = Some 293,
          v_D = Some (Fin (8252933595235867 / 2 ^ 86)), v_Du = Some (Fin (7686143364045645 / 2 ^ 56)),
          v_S_spot = Some (Fin (7555786372591432 / 2 ^ 73)), v_N = Some 3,
          v_tau_spot = Some (Fin (4611686018427388 / 2 ^ 62)),
          v_time = Some (Fin (8796093022208002 / 2 ^ 49)),
          v_sigma = Some (Fin (5902958103587056 / 2 ^ 66)),
          v_space = Some (Fin (7378697629483821 / 2 ^ 66)),
          shown = [Fin (6638732996790264 / 2 ^ 86), Fin (6037892487065859 / 2 ^ 46), Fin (8252933595235867 / 2 ^ 86), Fin (7686143364045645 / 2 ^ 56)],
          stdout = [''Displacement (std_dev): 80.00 um'',
                    ''Time for 100.0 um displacement: 15.6 s'']\<rparr>"
  unfolding run_notebook_def
  apply (simp only: cell_stokes_binary64 seq_Inr)
  apply (subst cell_Du_nm_binary64, simp)
  apply (simp only: seq_Inr cell_spot_binary64)
  apply (subst cell_Du_um_binary64, simp)
  apply (simp only: seq_Inr)
  apply (subst cell_sigma_binary64, simp)
  apply (simp only: seq_Inr)
  apply (subst cell_time_binary64, simp)
  apply (simp add: fresh_def)
  done

section \<open>The cells in exact arithmetic\<close>

lemma np_pi_exact: "np_pi exact = pi"
  by (simp add: exact_def)

lemma lit_exact: "lit exact q = Fin q"
  by (simp add: lit_def rnd_exact)

lemma int_to_float_exact: "int_to_float exact n = Inr (Fin (of_int n))"
  by (simp add: int_to_float_def rnd_exact)

lemma fmul_exact: "fmul exact (Fin a) (Fin b) = Fin (a * b)"
  by (simp add: rnd_exact)

lemma pow2_exact: "pow2 exact x = Fin (x * x)"
  by (simp add: exact_def)

lemma fsquare_exact: "fsquare exact (Fin a) = Inr (Fin (a * a))"
  by (simp add: pow2_exact)

lemma fdiv_exact:
  "fdiv exact (Fin a) (Fin b) = (if b = 0 then Inl ZeroDivisionError else Inr (Fin (a / b)))"
  by (simp add: fdiv_def rnd_exact)

lemma np_sqrt_exact: "np_sqrt exact (Fin a) = (if a < 0 then NaN else Fin (sqrt a))"
  by (simp add: rnd_exact)

lemma np_mul_exact: "np_mul exact (Fin x) (Fin b) = Fin (x * b)"
  by (simp add: np_mul_def rnd_exact)

lemmas exact_ops = np_pi_exact lit_exact int_to_float_exact rnd_exact pow2_exact fdiv_exact
  np_mul_exact seq_Inr

text \<open>In exact arithmetic each formula is its quotient or root, guarded by the division by zero.\<close>

lemma D_stokes_einstein_exact:
  "D_stokes_einstein exact (Fin kB) T (Fin eta) (Fin d) =
     (if eta = 0 \<or> d = 0 then Inl ZeroDivisionError
      else Inr (Fin (kB * of_int T / (3 * pi * eta * d))))"
  by (simp add: D_stokes_einstein_def exact_ops)

lemma rescale_exact:
  "rescale exact (Fin D) (Fin len) (Fin tim) =
     (if tim = 0 then Inl ZeroDivisionError else Inr (Fin (D * len\<^sup>2 / tim)))"
  by (simp add: rescale_def exact_ops power2_eq_square)

lemma D_spot_exact:
  "D_spot exact (Fin S_spot) N (Fin tau_spot) =
     (if N = 0 \<or> tau_spot = 0 then Inl ZeroDivisionError
      else Inr (Fin (S_spot\<^sup>2 / (2 * of_int N * tau_spot))))"
  by (simp add: D_spot_def exact_ops power2_eq_square)

lemma two_D_N_exact: "two_D_N exact (Fin D) N = Inr (Fin (2 * D * of_int N))"
  by (simp add: two_D_N_def exact_ops)

lemma sigma_displacement_exact:
  "sigma_displacement exact (Fin D) N (Fin time) =
     Inr (if 2 * D * of_int N * time < 0 then NaN else Fin (sqrt (2 * D * of_int N * time)))"
  by (simp add: sigma_displacement_def two_D_N_exact exact_ops)

lemma diffusion_time_exact:
  "diffusion_time exact (Fin space) (Fin D) N =
     (if D = 0 \<or> N = 0 then Inl ZeroDivisionError
      else Inr (Fin (space\<^sup>2 / (2 * D * of_int N))))"
  by (simp add: diffusion_time_def two_D_N_exact exact_ops power2_eq_square)

lemma sqrt_sigma_exact: "sqrt (64 / 10 ^ 10) = 8 / 10 ^ 5"
  by (rule real_sqrt_unique) (simp_all add: power2_eq_square)

lemma run_notebook_exact:
  "run_notebook exact =
     Inr \<lparr>v_d = Some (Fin (5 / 10 ^ 9)), v_eta = Some (Fin (1.0 / 10 ^ 3)),
          v_kB = Some (Fin (1.38 / 10 ^ 23)), v_T = Some 293,
          v_D = Some (Fin (16 / (15 * 10 ^ 10))), v_Du = Some (Fin (8 / 75)),
          v_S_spot = Some (Fin (0.8 / 10 ^ 6)), v_N = Some 3,
          v_tau_spot = Some (Fin (1 / 10 ^ 3)),
          v_time = Some (Fin (125 / 8)),
          v_sigma = Some (Fin (8 / 10 ^ 5)),
          v_space = Some (Fin (0.1 / 10 ^ 3)),
          shown = [Fin (26.956 / (10 ^ 11 * pi)), Fin (26.956 * 10 / pi),
                   Fin (16 / (15 * 10 ^ 10)), Fin (8 / 75)],
          stdout = [''Displacement (std_dev): 80.00 um'',
                    ''Time for 100.0 um displacement: 15.6 s'']\<rparr>"
proof -
  have s1: "cell_stokes exact fresh = Inr (fresh\<lparr>v_d := Some (Fin (5 / 10 ^ 9)),
          v_eta := Some (Fin (1.0 / 10 ^ 3)),
          v_kB := Some (Fin (1.38 / 10 ^ 23)), v_T := Some 293,
          v_D := Some (Fin (26.956 / (10 ^ 11 * pi))),
          shown := [Fin (26.956 / (10 ^ 11 * pi))]\<rparr>)" (is "_ = Inr ?s1")
    by (simp add: cell_stokes_def Let_def D_stokes_einstein_exact exact_ops fresh_def)
  have s2: "cell_Du_nm exact ?s1 = Inr (?s1\<lparr>v_Du := Some (Fin (26.956 * 10 / pi)),
          shown := [Fin (26.956 / (10 ^ 11 * pi)), Fin (26.956 * 10 / pi)]\<rparr>)" (is "_ = Inr ?s2")
    by (simp add: cell_Du_nm_def rescale_exact exact_ops name_Some)
  have s3: "cell_spot exact ?s2 = Inr (?s2\<lparr>v_S_spot := Some (Fin (0.8 / 10 ^ 6)), v_N := Some 3,
          v_tau_spot := Some (Fin (1 / 10 ^ 3)), v_D := Some (Fin (16 / (15 * 10 ^ 10))),
          shown := [Fin (26.956 / (10 ^ 11 * pi)), Fin (26.956 * 10 / pi),
                    Fin (16 / (15 * 10 ^ 10))]\<rparr>)" (is "_ = Inr ?s3")
    by (simp add: cell_spot_def Let_def D_spot_exact exact_ops power_divide)
  have s4: "cell_Du_um exact ?s3 = Inr (?s3\<lparr>v_Du := Some (Fin (8 / 75)),
          shown := [Fin (26.956 / (10 ^ 11 * pi)), Fin (26.956 * 10 / pi),
                    Fin (16 / (15 * 10 ^ 10)), Fin (8 / 75)]\<rparr>)" (is "_ = Inr ?s4")
    by (simp add: cell_Du_um_def rescale_exact exact_ops name_Some)
  have s5: "cell_sigma exact ?s4 = Inr (?s4\<lparr>v_time := Some (Fin 10), v_sigma := Some (Fin (8 / 10 ^ 5)),
          stdout := [''Displacement (std_dev): 80.00 um'']\<rparr>)" (is "_ = Inr ?s5")
  proof -
    have r: "sqrt (1 / 156250000) = 1 / 12500" using sqrt_sigma_exact by simp
    have "cell_sigma exact ?s4 = Inr (?s4\<lparr>v_time := Some (Fin 10), v_sigma := Some (Fin (8 / 10 ^ 5)),
          stdout := [''Displacement (std_dev): '' @ fmt_f 2 80 @ '' um'']\<rparr>)"
      by (simp add: cell_sigma_def Let_def sigma_displacement_exact exact_ops name_Some fmt_py_def r fresh_def
            del: real_sqrt_divide)
    then show ?thesis unfolding fmt_80 by simp
  qed
  have s6: "cell_time exact ?s5 = Inr (?s5\<lparr>v_space := Some (Fin (0.1 / 10 ^ 3)), v_time := Some (Fin (125 / 8)),
          stdout := [''Displacement (std_dev): 80.00 um'', ''Time for 100.0 um displacement: 15.6 s'']\<rparr>)"
          (is "_ = Inr ?s6")
  proof -
    have "cell_time exact ?s5 = Inr (?s5\<lparr>v_space := Some (Fin (0.1 / 10 ^ 3)), v_time := Some (Fin (125 / 8)),
          stdout := [''Displacement (std_dev): 80.00 um'',
             ''Time for '' @ fmt_f 1 100 @ '' um displacement: '' @ fmt_f 1 (125 / 8) @ '' s'']\<rparr>)"
      by (simp add: cell_time_def Let_def diffusion_time_exact exact_ops name_Some fmt_py_def power_divide fresh_def del: One_nat_def)
    then show ?thesis unfolding fmt_100 fmt_time_exact by simp
  qed
  show ?thesis
    unfolding run_notebook_def s1 seq_Inr s2 s3 s4 s5 s6 by (simp add: fresh_def)
qed

section \<open>Order and monotone roundings\<close>

lemma fle_refl: "a \<noteq> NaN \<Longrightarrow> fle a a"
  by (cases a) simp_all

lemma fle_PInf: "a \<noteq> NaN \<Longrightarrow> fle a PInf"
  by (cases a) simp_all

lemma fle_trans: "fle a b \<Longrightarrow> fle b c \<Longrightarrow> fle a c"
  by (cases a; cases b; cases c) simp_all

lemma fle_not_NaN: "fle a b \<Longrightarrow> a \<noteq> NaN \<and> b \<noteq> NaN"
  by (cases a; cases b) simp_all

lemma nonneg_iff: "nonneg a \<longleftrightarrow> (\<exists>x. a = Fin x \<and> 0 \<le> x) \<or> a = PInf"
  by (cases a) (simp_all add: nonneg_def)

lemma nonneg_Fin [simp]: "nonneg (Fin x) \<longleftrightarrow> 0 \<le> x"
  by (simp add: nonneg_def)

lemma nonneg_PInf [simp]: "nonneg PInf"
  by (simp add: nonneg_def)

lemma monotone_rounding_exact: "monotone_rounding exact"
  by (simp add: monotone_rounding_def rnd_exact)

lemma monotone_rounding_ieee: "monotone_rounding (ieee P)"
  by (simp add: monotone_rounding_def to_double_mono)

lemma monotone_rounding_binary64: "monotone_rounding binary64"
  unfolding binary64_def by (rule monotone_rounding_ieee)

lemma mono_rnd:
  assumes "monotone_rounding A"
  shows "x \<le> y \<Longrightarrow> fle (rnd A x) (rnd A y)" and "0 \<le> x \<Longrightarrow> nonneg (rnd A x)"
    and "rnd A x \<noteq> NaN" and "rnd A 0 = Fin 0"
proof -
  show m: "x \<le> y \<Longrightarrow> fle (rnd A x) (rnd A y)" for x y
    using assms by (simp add: monotone_rounding_def)
  show z: "rnd A 0 = Fin 0" using assms by (simp add: monotone_rounding_def)
  with m[of 0 x] show "0 \<le> x \<Longrightarrow> nonneg (rnd A x)" by (simp add: nonneg_def)
  from m[of x x] show "rnd A x \<noteq> NaN" by (auto dest: fle_not_NaN)
qed

text \<open>
  A product of floats that are not negative is monotone in each factor, as long as it is
  not the NaN that an infinity times zero gives.
\<close>

lemma fmul_commute: "fmul A a b = fmul A b a"
  by (cases a; cases b) (auto simp: mult.commute)

lemma fmul_NaN [simp]: "fmul A NaN b = NaN" "fmul A a NaN = NaN"
  by (cases a; simp)+

lemma fmul_nonneg:
  assumes "monotone_rounding A" "nonneg a" "nonneg b" "fmul A a b \<noteq> NaN"
  shows "nonneg (fmul A a b)"
  using assms mono_rnd(2)[OF assms(1), of "x * y" for x y]
  by (cases a; cases b) (auto simp: inf_of_def split: if_splits)

lemma fmul_mono_right:
  assumes M: "monotone_rounding A" and "nonneg a" "nonneg b" "fle b b'"
    and "fmul A a b \<noteq> NaN" "fmul A a b' \<noteq> NaN"
  shows "fle (fmul A a b) (fmul A a b')"
proof (cases a)
  case (Fin x)
  with assms(2) have x: "0 \<le> x" by simp
  show ?thesis
  proof (cases b)
    case b: (Fin y)
    with assms(3) have y: "0 \<le> y" by simp
    show ?thesis
    proof (cases b')
      case (Fin y')
      with assms(4) b have "y \<le> y'" by simp
      then have "x * y \<le> x * y'" using x by (rule mult_left_mono)
      then show ?thesis using Fin b \<open>a = Fin x\<close> mono_rnd(1)[OF M] by simp
    next
      case PInf
      with assms(6) \<open>a = Fin x\<close> have "x \<noteq> 0" by (auto split: if_splits)
      with x have "fmul A a b' = PInf" using PInf \<open>a = Fin x\<close> by (simp add: inf_of_def)
      then show ?thesis using assms(5) by (simp add: fle_PInf)
    next
      case NInf with assms(4) b show ?thesis by simp
    next
      case NaN with assms(4) b show ?thesis by simp
    qed
  next
    case PInf
    with assms(4) have "b' = PInf" by (cases b') simp_all
    then show ?thesis using PInf assms(5) by (simp add: fle_refl)
  next
    case NInf with assms(3) show ?thesis by (simp add: nonneg_def)
  next
    case NaN with assms(3) show ?thesis by (simp add: nonneg_def)
  qed
next
  case PInf
  have nb: "nonneg b'" using assms(3,4) unfolding nonneg_def by (rule fle_trans)
  have "fmul A a b = PInf" using PInf assms(3,5) by (cases b) (auto simp: inf_of_def nonneg_def split: if_splits)
  moreover have "fmul A a b' = PInf" using PInf nb assms(6) by (cases b') (auto simp: inf_of_def nonneg_def split: if_splits)
  ultimately show ?thesis by simp
next
  case NInf with assms(2) show ?thesis by (simp add: nonneg_def)
next
  case NaN with assms(2) show ?thesis by (simp add: nonneg_def)
qed

lemma fmul_mono_left:
  assumes "monotone_rounding A" and "nonneg b" "nonneg a" "fle a a'"
    and "fmul A a b \<noteq> NaN" "fmul A a' b \<noteq> NaN"
  shows "fle (fmul A a b) (fmul A a' b)"
  using fmul_mono_right[OF assms(1,2,3,4)] assms(5,6) by (simp add: fmul_commute)

lemma np_sqrt_mono:
  assumes M: "monotone_rounding A" and "nonneg a" "fle a b"
  shows "fle (np_sqrt A a) (np_sqrt A b)"
proof -
  have nb: "nonneg b" using assms(2,3) unfolding nonneg_def by (rule fle_trans)
  show ?thesis
  proof (cases a)
    case (Fin x)
    with assms(2) have x: "0 \<le> x" by simp
    show ?thesis
    proof (cases b)
      case b: (Fin y)
      with assms(3) Fin have "x \<le> y" by simp
      then have "sqrt x \<le> sqrt y" by simp
      then show ?thesis using Fin b x \<open>x \<le> y\<close> mono_rnd(1)[OF M] by simp
    next
      case PInf
      then show ?thesis using Fin x mono_rnd(3)[OF M] by (simp add: fle_PInf)
    qed (use nb in \<open>simp_all add: nonneg_def\<close>)
  next
    case PInf
    with assms(3) have "b = PInf" by (cases b) simp_all
    with PInf show ?thesis by simp
  qed (use assms(2) in \<open>simp_all add: nonneg_def\<close>)
qed

lemma np_sqrt_NaN: "np_sqrt A a \<noteq> NaN \<Longrightarrow> a \<noteq> NaN"
  by (cases a) simp_all

lemma int_to_float_Inr:
  assumes "int_to_float A n = Inr v"
  shows "\<exists>x. v = Fin x \<and> rnd A (of_int n) = Fin x"
  using assms by (cases "rnd A (of_int n)") (auto simp: int_to_float_def)

lemma int_to_float_mono:
  assumes M: "monotone_rounding A" and "n \<le> n'"
    and "int_to_float A n = Inr v" "int_to_float A n' = Inr v'"
  shows "fle v v'"
proof -
  from int_to_float_Inr[OF assms(3)] int_to_float_Inr[OF assms(4)]
  have "v = rnd A (of_int n)" "v' = rnd A (of_int n')" by auto
  moreover have "(of_int n :: real) \<le> of_int n'" using assms(2) by simp
  ultimately show ?thesis using mono_rnd(1)[OF M] by simp
qed

lemma int_to_float_nonneg:
  assumes M: "monotone_rounding A" and "0 \<le> n" "int_to_float A n = Inr v"
  shows "nonneg v"
proof -
  from int_to_float_Inr[OF assms(3)] have "v = rnd A (of_int n)" by auto
  moreover have "(0::real) \<le> of_int n" using assms(2) by simp
  ultimately show ?thesis using mono_rnd(2)[OF M] by simp
qed

section \<open>The standard deviation as a function of its arguments\<close>

lemma sigma_displacement_Inr:
  "sigma_displacement A D N time = Inr s \<longleftrightarrow>
     (\<exists>two n. int_to_float A 2 = Inr two \<and> int_to_float A N = Inr n \<and>
        s = np_sqrt A (fmul A (fmul A (fmul A two D) n) time))"
  by (auto simp: sigma_displacement_def two_D_N_def seq_def split: sum.splits)

lemma sigma_chain:
  assumes M: "monotone_rounding A"
    and n: "nonneg two" "nonneg D" "nonneg n" "nonneg time"
    and s: "np_sqrt A (fmul A (fmul A (fmul A two D) n) time) \<noteq> NaN"
  shows "fmul A two D \<noteq> NaN" "nonneg (fmul A two D)"
    "fmul A (fmul A two D) n \<noteq> NaN" "nonneg (fmul A (fmul A two D) n)"
    "fmul A (fmul A (fmul A two D) n) time \<noteq> NaN"
    "nonneg (fmul A (fmul A (fmul A two D) n) time)"
proof -
  show p3: "fmul A (fmul A (fmul A two D) n) time \<noteq> NaN" using s by (rule np_sqrt_NaN)
  then show p2: "fmul A (fmul A two D) n \<noteq> NaN" by (auto simp: fmul_NaN)
  then show p1: "fmul A two D \<noteq> NaN" by (auto simp: fmul_NaN)
  show n1: "nonneg (fmul A two D)" using M n(1,2) p1 by (rule fmul_nonneg)
  show n2: "nonneg (fmul A (fmul A two D) n)" using M n1 n(3) p2 by (rule fmul_nonneg)
  show "nonneg (fmul A (fmul A (fmul A two D) n) time)" using M n2 n(4) p3 by (rule fmul_nonneg)
qed

lemma sigma_mono_D:
  assumes M: "monotone_rounding A" and "nonneg D" "0 \<le> N" "nonneg time" "fle D D'"
    and "sigma_displacement A D N time = Inr s" "s \<noteq> NaN"
    and "sigma_displacement A D' N time = Inr s'" "s' \<noteq> NaN"
  shows "fle s s'"
proof -
  from assms(6) obtain two n where t: "int_to_float A 2 = Inr two" "int_to_float A N = Inr n"
    and s: "s = np_sqrt A (fmul A (fmul A (fmul A two D) n) time)"
    unfolding sigma_displacement_Inr by blast
  from assms(8) t have s': "s' = np_sqrt A (fmul A (fmul A (fmul A two D') n) time)"
    unfolding sigma_displacement_Inr by auto
  have two: "nonneg two" using M _ t(1) by (rule int_to_float_nonneg) simp
  have n: "nonneg n" using M assms(3) t(2) by (rule int_to_float_nonneg)
  have D': "nonneg D'" using assms(2,5) unfolding nonneg_def by (rule fle_trans)
  note c = sigma_chain[OF M two assms(2) n assms(4) assms(7)[unfolded s]]
  note c' = sigma_chain[OF M two D' n assms(4) assms(9)[unfolded s']]
  have "fle (fmul A two D) (fmul A two D')"
    using M two assms(2,5) c(1) c'(1) by (rule fmul_mono_right)
  with M n c(2) have "fle (fmul A (fmul A two D) n) (fmul A (fmul A two D') n)"
    using c(3) c'(3) by (rule fmul_mono_left)
  with M assms(4) c(4)
  have "fle (fmul A (fmul A (fmul A two D) n) time) (fmul A (fmul A (fmul A two D') n) time)"
    using c(5) c'(5) by (rule fmul_mono_left)
  with M c(6) show ?thesis unfolding s s' by (rule np_sqrt_mono)
qed

lemma sigma_mono_N:
  assumes M: "monotone_rounding A" and "nonneg D" "0 \<le> N" "nonneg time" "N \<le> N'"
    and "sigma_displacement A D N time = Inr s" "s \<noteq> NaN"
    and "sigma_displacement A D N' time = Inr s'" "s' \<noteq> NaN"
  shows "fle s s'"
proof -
  from assms(6) obtain two n where t: "int_to_float A 2 = Inr two" "int_to_float A N = Inr n"
    and s: "s = np_sqrt A (fmul A (fmul A (fmul A two D) n) time)"
    unfolding sigma_displacement_Inr by blast
  from assms(8) t(1) obtain n' where t': "int_to_float A N' = Inr n'"
    and s': "s' = np_sqrt A (fmul A (fmul A (fmul A two D) n') time)"
    unfolding sigma_displacement_Inr by auto
  have two: "nonneg two" using M _ t(1) by (rule int_to_float_nonneg) simp
  have n: "nonneg n" using M assms(3) t(2) by (rule int_to_float_nonneg)
  have n': "nonneg n'" using M _ t' by (rule int_to_float_nonneg) (use assms(3,5) in simp)
  have nn: "fle n n'" using M assms(5) t(2) t' by (rule int_to_float_mono)
  note c = sigma_chain[OF M two assms(2) n assms(4) assms(7)[unfolded s]]
  note c' = sigma_chain[OF M two assms(2) n' assms(4) assms(9)[unfolded s']]
  have "fle (fmul A (fmul A two D) n) (fmul A (fmul A two D) n')"
    using M c(2) n nn c(3) c'(3) by (rule fmul_mono_right)
  with M assms(4) c(4)
  have "fle (fmul A (fmul A (fmul A two D) n) time) (fmul A (fmul A (fmul A two D) n') time)"
    using c(5) c'(5) by (rule fmul_mono_left)
  with M c(6) show ?thesis unfolding s s' by (rule np_sqrt_mono)
qed

lemma sigma_mono_time:
  assumes M: "monotone_rounding A" and "nonneg D" "0 \<le> N" "nonneg time" "fle time time'"
    and "sigma_displacement A D N time = Inr s" "s \<noteq> NaN"
    and "sigma_displacement A D N time' = Inr s'" "s' \<noteq> NaN"
  shows "fle s s'"
proof -
  from assms(6) obtain two n where t: "int_to_float A 2 = Inr two" "int_to_float A N = Inr n"
    and s: "s = np_sqrt A (fmul A (fmul A (fmul A two D) n) time)"
    unfolding sigma_displacement_Inr by blast
  from assms(8) t have s': "s' = np_sqrt A (fmul A (fmul A (fmul A two D) n) time')"
    unfolding sigma_displacement_Inr by auto
  have two: "nonneg two" using M _ t(1) by (rule int_to_float_nonneg) simp
  have n: "nonneg n" using M assms(3) t(2) by (rule int_to_float_nonneg)
  have time': "nonneg time'" using assms(4,5) unfolding nonneg_def by (rule fle_trans)
  note c = sigma_chain[OF M two assms(2) n assms(4) assms(7)[unfolded s]]
  note c' = sigma_chain[OF M two assms(2) n time' assms(9)[unfolded s']]
  have "fle (fmul A (fmul A (fmul A two D) n) time) (fmul A (fmul A (fmul A two D) n) time')"
    using M c(4) assms(4,5) c(5) c'(5) by (rule fmul_mono_right)
  with M c(6) show ?thesis unfolding s s' by (rule np_sqrt_mono)
qed

text \<open>Integers below \<open>2^53\<close> are doubles.\<close>

lemma to_double_of_int: "\<bar>n\<bar> < 2 ^ 53 \<Longrightarrow> to_double (of_int n) = Fin (of_int n)"
proof (cases "n = 0")
  case True then show ?thesis by simp
next
  case False
  assume a: "\<bar>n\<bar> < 2 ^ 53"
  have b: "b64 (of_int n) = of_int n" using a by (rule b64_of_int)
  have "1 \<le> \<bar>n\<bar>" using False by simp
  then have "(1::real) \<le> \<bar>of_int n\<bar>" by (metis of_int_1 of_int_abs of_int_le_iff)
  moreover have "(2::real) powi (- 1022) \<le> 2 powi 0" by (intro powi2_mono) simp
  ultimately have lo: "2 powi (- 1022) \<le> \<bar>real_of_int n\<bar>" by simp
  have "real_of_int \<bar>n\<bar> < real_of_int (2 ^ 53)" using a by (simp only: of_int_less_iff)
  then have "\<bar>real_of_int n\<bar> < 2 ^ 1024" by simp
  then show ?thesis using to_double_b64'[OF lo] by (simp only: b)
qed

lemma to_double_numeral [simp]:
  "\<bar>numeral k :: int\<bar> < 2 ^ 53 \<Longrightarrow> to_double (numeral k) = Fin (numeral k)"
  using to_double_of_int[of "numeral k"] by simp

lemma to_double_one [simp]: "to_double 1 = Fin 1"
  using to_double_of_int[of 1] by simp

lemma int_to_float_small:
  "\<bar>n\<bar> < 2 ^ 53 \<Longrightarrow> int_to_float (ieee P) n = Inr (Fin (of_int n))"
  by (simp add: int_to_float_def to_double_of_int)

section \<open>When an evaluation raises\<close>

lemma fsquare_ieee:
  "fsquare (ieee P) (Fin x) =
     (if overflows P x then Inl OverflowError else Inr (if x = 0 then Fin 0 else P \<bar>x\<bar>))"
  by (cases "P \<bar>x\<bar>") (simp_all add: overflows_def)

lemma overflows_binary64: "overflows (\<lambda>x. to_double (x * x)) x \<longleftrightarrow> huge \<le> x * x"
proof -
  have "\<not> x * x \<le> - huge" using huge_pos zero_le_square[of x] by linarith
  moreover have "x = 0 \<Longrightarrow> \<not> huge \<le> x * x" using huge_pos by simp
  ultimately show ?thesis by (auto simp: overflows_def to_double_PInf_iff to_double_NInf_iff)
qed

lemma int_to_float_ieee:
  "int_to_float (ieee P) n =
     (if \<bar>of_int n\<bar> < huge then Inr (Fin (nearest (of_int n))) else Inl OverflowError)"
  using huge_pos by (auto simp: int_to_float_def to_double_cases)

lemma fmul_ieee_zero_iff:
  "fmul (ieee P) a (Fin d) = Fin 0 \<longleftrightarrow> (\<exists>x. a = Fin x \<and> \<bar>x * d\<bar> \<le> tiny)"
  by (cases a) (auto simp: to_double_eq_0_iff inf_of_def)

lemma to_double_split:
  "to_double x = Fin y \<longleftrightarrow> \<bar>x\<bar> < huge \<and> y = nearest x"
  using huge_pos by (auto simp: to_double_cases)

lemma three_pi_ieee:
  "fmul (ieee P) (Fin 3) (Fin (np_pi (ieee P))) = Fin (5305678314021330 / 2 ^ 49)"
  using stokes_den1 by (simp add: np_pi_ieee rnd_binary64)

text \<open>
  When the standard deviation is a NaN, for arguments that are not negative: when a
  product has overflowed to an infinity and \<open>N\<close> or \<open>time\<close> is zero.
\<close>

lemma sigma_nan_iff:
  assumes "0 \<le> D" "0 \<le> time" "0 \<le> N" "of_int N < huge"
  shows "sigma_displacement (ieee P) (Fin D) N (Fin time) = Inr NaN \<longleftrightarrow>
     (N = 0 \<or> time = 0) \<and> (huge \<le> 2 * D \<or> huge \<le> nearest (2 * D) * nearest (of_int N))"
proof -
  have two: "int_to_float (ieee P) 2 = Inr (Fin 2)"
    using int_to_float_small[of 2 P] by simp
  have n: "int_to_float (ieee P) N = Inr (Fin (nearest (of_int N)))"
    using assms(3,4) by (simp add: int_to_float_ieee)
  have n0: "0 \<le> nearest (real_of_int N)" using assms(3) by (intro nearest_nonneg) simp
  have nz: "nearest (real_of_int N) = 0 \<longleftrightarrow> N = 0"
  proof
    assume "nearest (real_of_int N) = 0"
    then have "\<bar>real_of_int N\<bar> \<le> tiny" by (simp only: nearest_eq_0_iff)
    moreover have "tiny < 1" unfolding tiny_def using power_int_strict_increasing[of "- 1075" 0 "2::real"] by simp
    ultimately have "\<bar>real_of_int N\<bar> < 1" by linarith
    then show "N = 0" by linarith
  qed (simp add: nearest_zero)
  have d0: "0 \<le> nearest (2 * D)" using assms(1) by (intro nearest_nonneg) simp
  have h: "\<not> 2 * D \<le> - huge" using assms(1) huge_pos by linarith
  have s: "0 \<le> sqrt x" if "0 \<le> x" for x :: real using that by simp
  show ?thesis
  proof (cases "huge \<le> 2 * D")
    case True
    then have p1: "fmul (ieee P) (Fin 2) (Fin D) = PInf" by (simp add: to_double_cases)
    show ?thesis
      unfolding sigma_displacement_def two_D_N_def two n seq_Inr p1
      using True n0 nz assms(2) by (cases "N = 0"; cases "time = 0") (auto simp: inf_of_def to_double_cases)
  next
    case False
    then have p1: "fmul (ieee P) (Fin 2) (Fin D) = Fin (nearest (2 * D))"
      using h by (simp add: to_double_cases)
    define m where "m = nearest (2 * D) * nearest (of_int N)"
    have m0: "0 \<le> m" unfolding m_def using d0 n0 by simp
    have hm: "\<not> m \<le> - huge" using m0 huge_pos by linarith
    show ?thesis
    proof (cases "huge \<le> m")
      case True
      then have p2: "fmul (ieee P) (Fin (nearest (2 * D))) (Fin (nearest (of_int N))) = PInf"
        by (simp add: to_double_cases m_def)
      have "N \<noteq> 0" using True huge_pos nz by (auto simp: m_def)
      then show ?thesis
        unfolding sigma_displacement_def two_D_N_def two n seq_Inr p1 p2
        using True False assms(2) by (cases "time = 0") (auto simp: inf_of_def m_def)
    next
      case F2: False
      then have p2: "fmul (ieee P) (Fin (nearest (2 * D))) (Fin (nearest (of_int N))) = Fin (nearest m)"
        using hm by (simp add: to_double_cases m_def)
      have nm: "0 \<le> nearest m" using m0 by (rule nearest_nonneg)
      have k: "0 \<le> nearest m * time" using nm assms(2) by simp
      then have "0 \<le> nearest (nearest m * time)" by (rule nearest_nonneg)
      then have "np_sqrt (ieee P) (fmul (ieee P) (Fin (nearest m)) (Fin time)) \<noteq> NaN"
        using k huge_pos
        by (cases "to_double (nearest m * time)") (auto simp: to_double_cases split: if_splits)
      then show ?thesis
        unfolding sigma_displacement_def two_D_N_def two n seq_Inr p1 p2
        using False F2 by (simp add: m_def)
    qed
  qed
qed

section \<open>Where nothing overflows or underflows\<close>

text \<open>
  A positive real between two powers of two stays between powers of two under products,
  quotients, square roots and rounding; between \<open>2^-1022\<close> and \<open>2^1023\<close> its rounding
  to a float is its rounding to 53 bits.
\<close>

lemma window_pos: "window a b x \<Longrightarrow> 0 < x"
proof -
  assume "window a b x"
  then have "2 powi a \<le> x" by (simp add: window_def)
  moreover have "(0::real) < 2 powi a" by simp
  ultimately show ?thesis by linarith
qed

lemma window_mono: "window a b x \<Longrightarrow> a' \<le> a \<Longrightarrow> b \<le> b' \<Longrightarrow> window a' b' x"
  unfolding window_def using powi2_mono[of a' a] powi2_mono[of b b'] by linarith

lemma window_mult:
  assumes "window a b x" "window c d y"
  shows "window (a + c) (b + d) (x * y)"
proof -
  have p: "(0::real) < 2 powi k" for k by simp
  have x: "2 powi a \<le> x" "x \<le> 2 powi b" and y: "2 powi c \<le> y" "y \<le> 2 powi d"
    using assms by (simp_all add: window_def)
  have x0: "0 \<le> x" and y0: "0 \<le> y"
    using window_pos[OF assms(1)] window_pos[OF assms(2)] by simp_all
  have "2 powi a * 2 powi c \<le> x * y"
    using x(1) y(1) x0 by (intro mult_mono) simp_all
  moreover have "x * y \<le> 2 powi b * 2 powi d"
    using x(2) y(2) y0 by (intro mult_mono) simp_all
  ultimately show ?thesis by (simp add: window_def power_int_add)
qed

lemma window_divide:
  assumes "window a b x" "window c d y"
  shows "window (a - d) (b - c) (x / y)"
proof -
  have p: "(0::real) < 2 powi k" for k by simp
  have x: "2 powi a \<le> x" "x \<le> 2 powi b" and y: "2 powi c \<le> y" "y \<le> 2 powi d"
    using assms by (simp_all add: window_def)
  have y0: "0 < y" using assms(2) by (rule window_pos)
  have x0: "0 < x" using assms(1) by (rule window_pos)
  have "2 powi a / 2 powi d \<le> x / y"
    using x(1) y(2) y0 x0 by (intro frac_le) simp_all
  moreover have "x / y \<le> 2 powi b / 2 powi c"
    using x(2) y(1) x0 by (intro frac_le) simp_all
  ultimately show ?thesis by (simp add: window_def power_int_diff)
qed

lemma window_b64: "window a b x \<Longrightarrow> window a b (b64 x)"
  unfolding window_def using b64_mono[of "2 powi a" x] b64_mono[of x "2 powi b"]
  by (simp add: b64_powi)

lemma window_sqrt:
  assumes "window (2 * a) (2 * b) x"
  shows "window a b (sqrt x)"
proof -
  have p: "(0::real) < 2 powi k" for k by simp
  have s: "(2::real) powi (2 * k) = (2 powi k)\<^sup>2" for k
    by (simp add: power2_eq_square power_int_add[symmetric])
  have x: "(2 powi a)\<^sup>2 \<le> x" "x \<le> (2 powi b)\<^sup>2" using assms by (simp_all add: window_def s)
  have "2 powi a \<le> sqrt x" using x(1) by (rule real_le_rsqrt)
  moreover have "sqrt x \<le> 2 powi b" using x(2) p[of b] by (intro real_le_lsqrt) simp_all
  ultimately show ?thesis by (simp add: window_def)
qed

lemma window_of_int: "1 \<le> n \<Longrightarrow> n \<le> 2 ^ 53 \<Longrightarrow> window 0 53 (of_int n)"
proof -
  assume a: "1 \<le> n" "n \<le> 2 ^ 53"
  have "(of_int 1 :: real) \<le> of_int n" using a(1) by (simp only: of_int_le_iff)
  moreover have "(of_int n :: real) \<le> of_int (2 ^ 53)" using a(2) by (simp only: of_int_le_iff)
  ultimately show ?thesis by (simp add: window_def)
qed

lemma to_double_window:
  assumes "window a b x" "- 1022 \<le> a" "b \<le> 1023"
  shows "to_double x = Fin (b64 x)"
proof -
  have w: "window (- 1022) 1023 x" using assms by (rule window_mono)
  then have "0 < x" by (rule window_pos)
  with w show ?thesis by (intro to_double_b64) (simp_all add: window_def)
qed

lemma rnd_window:
  assumes "window a b x" "- 1022 \<le> a" "b \<le> 1023"
  shows "rnd (ieee P) x = Fin (b64 x)" "window a b (b64 x)"
  using assms by (simp_all add: to_double_window window_b64)

text \<open>The operations on floats in such a window.\<close>

lemma fmul_window:
  assumes "window a b x" "window c d y" "- 1022 \<le> a + c" "b + d \<le> 1023"
  shows "fmul (ieee P) (Fin x) (Fin y) = Fin (b64 (x * y))" "window (a + c) (b + d) (b64 (x * y))"
  using rnd_window[OF window_mult[OF assms(1,2)] assms(3,4)] by simp_all

lemma fdiv_window:
  assumes "window a b x" "window c d y" "- 1022 \<le> a - d" "b - c \<le> 1023"
  shows "fdiv (ieee P) (Fin x) (Fin y) = Inr (Fin (b64 (x / y)))"
    "window (a - d) (b - c) (b64 (x / y))"
  using rnd_window[OF window_divide[OF assms(1,2)] assms(3,4)] window_pos[OF assms(2)]
  by (simp_all add: fdiv_def)

lemma np_sqrt_window:
  assumes "window (2 * a) (2 * b) x" "- 1022 \<le> a" "b \<le> 1023"
  shows "np_sqrt (ieee P) (Fin x) = Fin (b64 (sqrt x))" "window a b (b64 (sqrt x))"
  using rnd_window[OF window_sqrt[OF assms(1)] assms(2,3)] window_pos[OF assms(1)]
  by simp_all

lemma fsquare_window:
  assumes P: "pow_within P w" and w: "w \<le> 1/2"
    and "window a b (x * x)" "0 < x" "- 1022 \<le> a" "b \<le> 1023"
  shows "\<exists>y. fsquare (ieee P) (Fin x) = Inr (Fin y) \<and> \<bar>y - x * x\<bar> \<le> w * (x * x) \<and>
           window (a - 1) (b + 1) y"
proof -
  have wi: "window (- 1022) 1023 (x * x)" using assms(3,5,6) by (rule window_mono)
  with P assms(4) obtain y where y: "P x = Fin y" "\<bar>y - x * x\<bar> \<le> w * (x * x)"
    unfolding pow_within_def by blast
  have c: "2 powi a \<le> x * x" "x * x \<le> 2 powi b" using assms(3) by (simp_all add: window_def)
  have c0: "0 < x * x" using assms(4) by simp
  have "w * (x * x) \<le> 1/2 * (x * x)" using w c0 by (intro mult_right_mono) simp_all
  with y(2) have "x * x / 2 \<le> y" "y \<le> 2 * (x * x)" using c0 by linarith+
  moreover have "(2::real) powi (a - 1) = 2 powi a / 2" "(2::real) powi (b + 1) = 2 * 2 powi b"
    by (simp_all add: power_int_diff power_int_add)
  ultimately have "window (a - 1) (b + 1) y" using c by (simp add: window_def)
  moreover have "fsquare (ieee P) (Fin x) = Inr (Fin y)"
    using assms(4) y(1) by simp
  ultimately show ?thesis using y(2) by blast
qed

lemma pow_within_binary64: "pow_within (\<lambda>x. to_double (x * x)) (1 / 2 ^ 53)"
proof -
  have "\<exists>y. to_double (x * x) = Fin y \<and> \<bar>y - x * x\<bar> \<le> 1 / 2 ^ 53 * (x * x)"
    if "window (- 1022) 1023 (x * x)" for x :: real
  proof -
    have "to_double (x * x) = Fin (b64 (x * x))" using that by (rule to_double_window) simp_all
    moreover have "\<bar>b64 (x * x) - x * x\<bar> \<le> 1 / 2 ^ 53 * (x * x)"
      using b64_error[of "x * x"] by simp
    ultimately show ?thesis by blast
  qed
  then show ?thesis by (simp add: pow_within_def to_double_nonneg)
qed

section \<open>Relative error\<close>

text \<open>
  Rounding to 53 bits has relative error at most \<open>2^-53\<close>, hence at most any larger
  \<open>w\<close>. What such a rounding does to a non-negative number, to a number already known
  up to \<open>k\<close> roundings, and to any number (as a relative perturbation \<open>\<delta>\<close>).
\<close>

lemma accurate_b64: "1 / 2 ^ 53 \<le> w \<Longrightarrow> w < 1 \<Longrightarrow> accurate b64 w"
proof -
  assume w: "1 / 2 ^ 53 \<le> w" "w < 1"
  have "\<bar>b64 x - x\<bar> \<le> w * \<bar>x\<bar>" for x
  proof -
    have "\<bar>b64 x - x\<bar> \<le> 1 / 2 ^ 53 * \<bar>x\<bar>" using b64_error[of x] by simp
    also have "\<dots> \<le> w * \<bar>x\<bar>" using w(1) by (intro mult_right_mono) simp_all
    finally show ?thesis .
  qed
  moreover have "0 \<le> w" using w(1) by (rule order_trans[rotated]) simp
  ultimately show ?thesis using w(2) by (simp add: accurate_def)
qed

lemma acc_bounds:
  assumes "accurate r u" "0 \<le> x"
  shows "x * (1 - u) \<le> r x" "r x \<le> x * (1 + u)"
proof -
  have "\<bar>r x - x\<bar> \<le> u * \<bar>x\<bar>" using assms(1) unfolding accurate_def by blast
  then have "\<bar>r x - x\<bar> \<le> u * x" using assms(2) by simp
  then have "x - u * x \<le> r x" "r x \<le> x + u * x" by linarith+
  then show "x * (1 - u) \<le> r x" "r x \<le> x * (1 + u)"
    by (simp_all add: algebra_simps)
qed

lemma acc_scaled:
  assumes "accurate r u" "0 \<le> c" "c * (1 - u) ^ k \<le> x" "x \<le> c * (1 + u) ^ k"
  shows "c * (1 - u) ^ Suc k \<le> r x" "r x \<le> c * (1 + u) ^ Suc k"
proof -
  have u: "0 \<le> u" "0 \<le> 1 - u" using assms(1) by (simp_all add: accurate_def)
  have "0 \<le> c * (1 - u) ^ k" using assms(2) u by simp
  then have x: "0 \<le> x" using assms(3) by simp
  have "c * (1 - u) ^ Suc k = c * (1 - u) ^ k * (1 - u)" by simp
  also have "\<dots> \<le> x * (1 - u)" using assms(3) u by (intro mult_right_mono)
  also have "\<dots> \<le> r x" using assms(1) x by (rule acc_bounds)
  finally show "c * (1 - u) ^ Suc k \<le> r x" .
  have "r x \<le> x * (1 + u)" using assms(1) x by (rule acc_bounds)
  also have "\<dots> \<le> c * (1 + u) ^ k * (1 + u)" using assms(4) u by (intro mult_right_mono) simp_all
  also have "\<dots> = c * (1 + u) ^ Suc k" by simp
  finally show "r x \<le> c * (1 + u) ^ Suc k" .
qed

lemma acc_delta:
  assumes "accurate r u"
  shows "\<exists>\<delta>. \<bar>\<delta>\<bar> \<le> u \<and> r x = x * (1 + \<delta>)"
proof (cases "x = 0")
  case True
  have "\<bar>r 0 - 0\<bar> \<le> u * \<bar>0\<bar>" using assms unfolding accurate_def by blast
  then have "r 0 = 0" by simp
  moreover have "\<bar>0::real\<bar> \<le> u" using assms by (simp add: accurate_def)
  ultimately show ?thesis using True by (intro exI[of _ 0]) simp
next
  case False
  define \<delta> where "\<delta> = (r x - x) / x"
  have "\<bar>r x - x\<bar> \<le> u * \<bar>x\<bar>" using assms unfolding accurate_def by blast
  then have "\<bar>\<delta>\<bar> \<le> u" using False by (simp add: \<delta>_def abs_divide pos_divide_le_eq)
  moreover have "r x = x * (1 + \<delta>)" using False by (simp add: \<delta>_def field_simps)
  ultimately show ?thesis by blast
qed

lemma rel_delta:
  fixes y c w :: real
  assumes "\<bar>y - c\<bar> \<le> w * c" "0 < c"
  shows "\<exists>\<delta>. \<bar>\<delta>\<bar> \<le> w \<and> y = c * (1 + \<delta>)"
proof -
  define \<delta> where "\<delta> = (y - c) / c"
  have "\<bar>\<delta>\<bar> \<le> w" using assms by (simp add: \<delta>_def abs_divide pos_divide_le_eq)
  moreover have "y = c * (1 + \<delta>)" using assms(2) by (simp add: \<delta>_def field_simps)
  ultimately show ?thesis by blast
qed

lemma rel_step:
  fixes u p c :: real
  assumes "0 \<le> u" "\<bar>p - 1\<bar> \<le> (1 + u) ^ k - 1" "\<bar>c\<bar> \<le> u"
  shows "\<bar>p * (1 + c) - 1\<bar> \<le> (1 + u) ^ Suc k - 1"
proof -
  have "0 \<le> \<bar>p - 1\<bar>" by simp
  then have e: "0 \<le> (1 + u) ^ k - 1" using assms(2) by linarith
  have "p * (1 + c) - 1 = (p - 1) * (1 + c) + c" by (simp add: algebra_simps)
  then have "\<bar>p * (1 + c) - 1\<bar> \<le> \<bar>p - 1\<bar> * \<bar>1 + c\<bar> + \<bar>c\<bar>"
    by (metis abs_mult abs_triangle_ineq)
  also have "\<dots> \<le> ((1 + u) ^ k - 1) * (1 + u) + u"
  proof -
    have "\<bar>1 + c\<bar> \<le> 1 + u" using assms(3) by linarith
    then have "\<bar>p - 1\<bar> * \<bar>1 + c\<bar> \<le> ((1 + u) ^ k - 1) * (1 + u)"
      using assms(2) e by (intro mult_mono) simp_all
    with assms(3) show ?thesis by linarith
  qed
  also have "\<dots> = (1 + u) ^ Suc k - 1" by (simp add: algebra_simps)
  finally show ?thesis .
qed

section \<open>The spot formula as a function of \<open>tau_spot\<close>\<close>

lemma D_spot_Inr:
  "D_spot A S N tau = Inr D \<longleftrightarrow>
     (\<exists>s2 n. fsquare A S = Inr s2 \<and> int_to_float A (2 * N) = Inr n \<and>
        fmul A n tau \<noteq> Fin 0 \<and> D = fquot A s2 (fmul A n tau))"
  by (auto simp: D_spot_def seq_def fdiv_def split: sum.splits)

lemma fsquare_Inr_nonneg:
  assumes "\<forall>x. 0 < x \<longrightarrow> nonneg (pow2 A x)" "0 < S" "fsquare A (Fin S) = Inr s2"
  shows "\<exists>a. s2 = Fin a \<and> 0 \<le> a"
proof -
  have n: "nonneg (pow2 A \<bar>S\<bar>)" using assms(1,2) by simp
  show ?thesis using assms(2,3) n
    by (cases "pow2 A \<bar>S\<bar>") (auto simp: nonneg_def)
qed

text \<open>
  Whenever the spot formula returns for two values of \<open>tau_spot\<close>, the larger one gives a
  \<open>D\<close> that is not larger, and not negative.
\<close>

lemma D_spot_nonincreasing:
  assumes M: "monotone_rounding A" and P: "\<forall>x. 0 < x \<longrightarrow> nonneg (pow2 A x)"
    and "0 < S" "0 < N" "0 < tau" "tau \<le> tau'"
    and "D_spot A (Fin S) N (Fin tau) = Inr D" "D_spot A (Fin S) N (Fin tau') = Inr D'"
  shows "nonneg D' \<and> fle D' D"
proof -
  from assms(7) obtain s2 n where e: "fsquare A (Fin S) = Inr s2" "int_to_float A (2 * N) = Inr n"
    and d: "fmul A n (Fin tau) \<noteq> Fin 0" "D = fquot A s2 (fmul A n (Fin tau))"
    unfolding D_spot_Inr by blast
  from assms(8) e have d': "fmul A n (Fin tau') \<noteq> Fin 0" "D' = fquot A s2 (fmul A n (Fin tau'))"
    unfolding D_spot_Inr by auto
  from fsquare_Inr_nonneg[OF P assms(3) e(1)] obtain a where a: "s2 = Fin a" "0 \<le> a" by blast
  from int_to_float_Inr[OF e(2)] obtain k where k: "n = Fin k" "rnd A (of_int (2 * N)) = Fin k"
    by blast
  have "nonneg n" using M _ e(2) by (rule int_to_float_nonneg) (use assms(4) in simp)
  then have k0: "0 \<le> k" using k(1) by simp
  define b where "b = rnd A (k * tau)"
  define b' where "b' = rnd A (k * tau')"
  have le: "k * tau \<le> k * tau'" using assms(6) k0 by (rule mult_left_mono)
  have bb: "fle b b'" unfolding b_def b'_def using le by (rule mono_rnd(1)[OF M])
  have nb: "nonneg b" "nonneg b'"
    unfolding b_def b'_def using k0 assms(5,6) by (intro mono_rnd(2)[OF M]; simp)+
  have b0: "b \<noteq> Fin 0" "b' \<noteq> Fin 0" using d(1) d'(1) by (simp_all add: k(1) b_def b'_def)
  have D: "D = fquot A (Fin a) b" "D' = fquot A (Fin a) b'"
    using d(2) d'(2) by (simp_all add: a(1) k(1) b_def b'_def)
  have q: "nonneg (rnd A (a / y))" if "0 < y" for y
    using a(2) that by (intro mono_rnd(2)[OF M]) simp
  show ?thesis
  proof (cases b')
    case (Fin y')
    with nb(2) b0(2) have y': "0 < y'" by simp
    from bb Fin obtain y where y: "b = Fin y" "y \<le> y'" using nb(1) by (cases b) (simp_all add: nonneg_def)
    with nb(1) b0(1) have y0: "0 < y" by simp
    have "a / y' \<le> a / y" using y(2) y0 a(2) by (simp add: frac_le)
    then have "fle (rnd A (a / y')) (rnd A (a / y))" by (rule mono_rnd(1)[OF M])
    then show ?thesis using D Fin y(1) q[OF y'] by simp
  next
    case PInf
    have z: "D' = Fin 0" using D(2) PInf by simp
    have "nonneg D"
    proof (cases b)
      case (Fin y)
      with nb(1) b0(1) have "0 < y" by simp
      then show ?thesis using D(1) Fin q by simp
    next
      case PInf then show ?thesis using D(1) by simp
    qed (use nb(1) in \<open>simp_all add: nonneg_def\<close>)
    then show ?thesis using z by (simp add: nonneg_def)
  qed (use nb(2) in \<open>simp_all add: nonneg_def\<close>)
qed

text \<open>Without rounding the quotient is strictly antitone in \<open>tau_spot\<close>.\<close>

lemma D_spot_exact_antitone:
  assumes "0 < S_spot" "0 < N" "0 < tau_spot" "tau_spot < tau_spot'"
  shows "\<exists>D D'. D_spot exact (Fin S_spot) N (Fin tau_spot) = Inr (Fin D) \<and>
           D_spot exact (Fin S_spot) N (Fin tau_spot') = Inr (Fin D') \<and> 0 < D' \<and> D' < D"
proof -
  let ?D = "S_spot\<^sup>2 / (2 * of_int N * tau_spot)"
  let ?D' = "S_spot\<^sup>2 / (2 * of_int N * tau_spot')"
  have n: "(0::real) < 2 * of_int N" using assms(2) by simp
  have t': "0 < tau_spot'" using assms(3,4) by simp
  have s: "0 < S_spot\<^sup>2" using assms(1) by simp
  have d: "0 < 2 * of_int N * tau_spot" "0 < 2 * of_int N * tau_spot'"
    using n assms(3) t' by simp_all
  have "2 * of_int N * tau_spot < 2 * of_int N * tau_spot'"
    using n assms(4) by simp
  then have lt: "?D' < ?D"
    using s by (rule divide_strict_left_mono) (rule mult_pos_pos[OF d(2) d(1)])
  have "D_spot exact (Fin S_spot) N (Fin tau_spot) = Inr (Fin ?D)"
    "D_spot exact (Fin S_spot) N (Fin tau_spot') = Inr (Fin ?D')"
    using assms t' by (simp_all add: D_spot_exact)
  moreover have "0 < ?D'" using s d by simp
  ultimately show ?thesis using lt by blast
qed

text \<open>
  For \<open>S_spot\<close> and \<open>tau_spot\<close> between \<open>2^-250\<close> and \<open>2^250\<close> and \<open>N\<close> below \<open>2^52\<close>
  nothing overflows or underflows, and the spot formula returns a positive number.
\<close>

lemma D_spot_window:
  assumes P: "pow_within P w" and w: "w \<le> 1/2"
    and S: "window (- 250) 250 S" and N: "1 \<le> N" "N < 2 ^ 52" and t: "window (- 250) 250 tau"
  shows "\<exists>D. D_spot (ieee P) (Fin S) N (Fin tau) = Inr (Fin D) \<and> window (- 804) 751 D"
proof -
  have S0: "0 < S" using S by (rule window_pos)
  have "window (- 250 + - 250) (250 + 250) (S * S)" using S S by (rule window_mult)
  then have "window (- 500) 500 (S * S)" by simp
  from fsquare_window[OF P w this S0] obtain y where
    y: "fsquare (ieee P) (Fin S) = Inr (Fin y)" "window (- 500 - 1) (500 + 1) y" by auto
  have n: "int_to_float (ieee P) (2 * N) = Inr (Fin (of_int (2 * N)))"
    using N by (intro int_to_float_small) simp
  have wn: "window 0 53 (of_int (2 * N))" using N by (intro window_of_int) simp_all
  have m1: "fmul (ieee P) (Fin (of_int (2 * N))) (Fin tau) = Fin (b64 (of_int (2 * N) * tau))"
    by (rule fmul_window(1)[OF wn t]) simp_all
  have m2: "window (0 + - 250) (53 + 250) (b64 (of_int (2 * N) * tau))"
    by (rule fmul_window(2)[OF wn t]) simp_all
  have q1: "fdiv (ieee P) (Fin y) (Fin (b64 (of_int (2 * N) * tau))) =
      Inr (Fin (b64 (y / b64 (of_int (2 * N) * tau))))"
    by (rule fdiv_window(1)[OF y(2) m2]) simp_all
  have q2: "window (- 500 - 1 - (53 + 250)) (500 + 1 - (0 + - 250)) (b64 (y / b64 (of_int (2 * N) * tau)))"
    by (rule fdiv_window(2)[OF y(2) m2]) simp_all
  have "D_spot (ieee P) (Fin S) N (Fin tau) = Inr (Fin (b64 (y / b64 (of_int (2 * N) * tau))))"
    unfolding D_spot_def y(1) n seq_Inr m1 q1 ..
  moreover have "window (- 804) 751 (b64 (y / b64 (of_int (2 * N) * tau)))"
    using q2 by simp
  ultimately show ?thesis by blast
qed

section \<open>A rescaling and its way back\<close>

text \<open>
  A rescaling \<^verbatim>\<open>D*(L)**2/(T)\<close> passes a \<^verbatim>\<open>pow\<close> and two roundings; multiplying by a
  literal \<open>I\<close> then adds the rounding of the literal and one more. With \<open>D\<close> between
  \<open>2^-900\<close> and \<open>2^900\<close>, \<open>L\<close> up to \<open>2^30\<close>, \<open>T\<close> up to \<open>2^20\<close> and \<open>I\<close> from
  \<open>2^-40\<close> nothing overflows or underflows on the way.
\<close>

lemma rescale_round_trip:
  assumes P: "pow_within P w" and w: "1 / 2 ^ 53 \<le> w" "w \<le> 1/2"
    and D: "window (- 900) 900 D" and L: "window 0 30 L" and T: "window 0 20 T"
    and I: "window (- 40) 0 I"
  shows "\<exists>Du B. rescale (ieee P) (Fin D) (Fin L) (Fin T) = Inr (Fin Du) \<and>
           \<bar>Du - D * (L * L / T)\<bar> \<le> ((1 + w) ^ 3 - 1) * (D * (L * L / T)) \<and>
           fmul (ieee P) (Fin Du) (lit (ieee P) I) = Fin B \<and>
           \<bar>B - D * (L * L / T * I)\<bar> \<le> ((1 + w) ^ 5 - 1) * (D * (L * L / T * I))"
proof -
  have w0: "0 \<le> w" using w(1) by (rule order_trans[rotated]) simp
  have A: "accurate b64 w" using w by (intro accurate_b64) simp_all
  have D0: "0 < D" and L0: "0 < L" and T0: "0 < T" and I0: "0 < I"
    using D L T I by (simp_all add: window_pos)
  have "window (0 + 0) (30 + 30) (L * L)" using L L by (rule window_mult)
  then have LL: "window 0 60 (L * L)" by simp
  from fsquare_window[OF P w(2) LL L0] obtain y where
    y: "fsquare (ieee P) (Fin L) = Inr (Fin y)" "\<bar>y - L * L\<bar> \<le> w * (L * L)"
      "window (0 - 1) (60 + 1) y" by auto
  have m1: "fmul (ieee P) (Fin D) (Fin y) = Fin (b64 (D * y))"
    by (rule fmul_window(1)[OF D y(3)]) simp_all
  have m2: "window (- 900 + (0 - 1)) (900 + (60 + 1)) (b64 (D * y))"
    by (rule fmul_window(2)[OF D y(3)]) simp_all
  define Du where "Du = b64 (b64 (D * y) / T)"
  have q1: "fdiv (ieee P) (Fin (b64 (D * y))) (Fin T) = Inr (Fin Du)"
    unfolding Du_def by (rule fdiv_window(1)[OF m2 T]) simp_all
  have q2: "window (- 900 + (0 - 1) - 20) (900 + (60 + 1) - 0) Du"
    unfolding Du_def by (rule fdiv_window(2)[OF m2 T]) simp_all
  have l1: "lit (ieee P) I = Fin (b64 I)"
    unfolding lit_def by (rule rnd_window(1)[OF I]) simp_all
  have l2: "window (- 40) 0 (b64 I)" using I by (rule window_b64)
  define B where "B = b64 (Du * b64 I)"
  have b1: "fmul (ieee P) (Fin Du) (Fin (b64 I)) = Fin B"
    unfolding B_def by (rule fmul_window(1)[OF q2 l2]) simp_all
  have r: "rescale (ieee P) (Fin D) (Fin L) (Fin T) = Inr (Fin Du)"
    unfolding rescale_def y(1) seq_Inr m1 q1 ..
  have LL0: "0 < L * L" using L0 by simp
  from rel_delta[OF y(2) LL0] obtain d1 where d1: "\<bar>d1\<bar> \<le> w" "y = L * L * (1 + d1)" by blast
  from acc_delta[OF A, of "D * y"] obtain d2 where
    d2: "\<bar>d2\<bar> \<le> w" "b64 (D * y) = D * y * (1 + d2)" by blast
  from acc_delta[OF A, of "b64 (D * y) / T"] obtain d3 where
    d3: "\<bar>d3\<bar> \<le> w" "Du = b64 (D * y) / T * (1 + d3)" unfolding Du_def by blast
  from acc_delta[OF A, of I] obtain d4 where d4: "\<bar>d4\<bar> \<le> w" "b64 I = I * (1 + d4)" by blast
  from acc_delta[OF A, of "Du * b64 I"] obtain d5 where
    d5: "\<bar>d5\<bar> \<le> w" "B = Du * b64 I * (1 + d5)" unfolding B_def by blast
  define F where "F = D * (L * L / T)"
  define p where "p = (1 + d1) * (1 + d2) * (1 + d3)"
  have F0: "0 < F" unfolding F_def using D0 L0 T0 by simp
  have "Du = D * y * (1 + d2) / T * (1 + d3)" by (simp only: d3(2) d2(2))
  also have "\<dots> = D * (L * L * (1 + d1)) * (1 + d2) / T * (1 + d3)" by (simp only: d1(2))
  also have "\<dots> = F * p" by (simp add: F_def p_def)
  finally have Du: "Du = F * p" .
  have "\<bar>(1::real) - 1\<bar> \<le> (1 + w) ^ 0 - 1" by simp
  from rel_step[OF w0 this d1(1)] have "\<bar>1 * (1 + d1) - 1\<bar> \<le> (1 + w) ^ Suc 0 - 1" .
  from rel_step[OF w0 this d2(1)] have "\<bar>1 * (1 + d1) * (1 + d2) - 1\<bar> \<le> (1 + w) ^ Suc (Suc 0) - 1" .
  from rel_step[OF w0 this d3(1)] have p3: "\<bar>p - 1\<bar> \<le> (1 + w) ^ Suc (Suc (Suc 0)) - 1"
    by (simp add: p_def)
  from rel_step[OF w0 p3 d4(1)] have "\<bar>p * (1 + d4) - 1\<bar> \<le> (1 + w) ^ Suc (Suc (Suc (Suc 0))) - 1" .
  from rel_step[OF w0 this d5(1)] have p5: "\<bar>p * (1 + d4) * (1 + d5) - 1\<bar> \<le> (1 + w) ^ 5 - 1"
    by (simp add: eval_nat_numeral)
  have p: "\<bar>p - 1\<bar> \<le> (1 + w) ^ 3 - 1" using p3 by (simp add: numeral_3_eq_3)
  have "Du - F = F * (p - 1)" by (simp add: Du algebra_simps)
  then have "\<bar>Du - F\<bar> = F * \<bar>p - 1\<bar>" using F0 by (simp add: abs_mult)
  also have "\<dots> \<le> F * ((1 + w) ^ 3 - 1)" using p F0 by (intro mult_left_mono) simp_all
  finally have e1: "\<bar>Du - F\<bar> \<le> ((1 + w) ^ 3 - 1) * F" by (simp add: mult.commute)
  have "B = F * p * (I * (1 + d4)) * (1 + d5)" by (simp only: d5(2) d4(2) Du)
  also have "\<dots> = F * I * (p * (1 + d4) * (1 + d5))" by (simp add: algebra_simps)
  finally have "B - F * I = F * I * (p * (1 + d4) * (1 + d5) - 1)" by (simp add: algebra_simps)
  then have "\<bar>B - F * I\<bar> = F * I * \<bar>p * (1 + d4) * (1 + d5) - 1\<bar>"
    using F0 I0 by (simp add: abs_mult)
  also have "\<dots> \<le> F * I * ((1 + w) ^ 5 - 1)" using p5 F0 I0 by (intro mult_left_mono) simp_all
  finally have e2: "\<bar>B - F * I\<bar> \<le> ((1 + w) ^ 5 - 1) * (F * I)" by (simp add: mult.commute)
  have FI: "F * I = D * (L * L / T * I)" by (simp add: F_def)
  show ?thesis using r e1 b1[folded l1] e2 unfolding FI unfolding F_def by blast
qed

section \<open>From \<open>sigma\<close> to a time and back\<close>

lemma two_D_N_window:
  assumes D: "window (- 250) 250 D" and N: "1 \<le> N" "N < 2 ^ 53"
  shows "\<exists>p. two_D_N (ieee P) (Fin D) N = Inr (Fin p) \<and> window (- 249) 304 p"
proof -
  have i: "int_to_float (ieee P) 2 = Inr (Fin 2)" "int_to_float (ieee P) N = Inr (Fin (of_int N))"
    using int_to_float_small[of 2 P] int_to_float_small[of N P] N by simp_all
  have w2: "window 1 1 2" by (simp add: window_def)
  have wn: "window 0 53 (of_int N)" using N by (intro window_of_int) simp_all
  have m1: "fmul (ieee P) (Fin 2) (Fin D) = Fin (b64 (2 * D))"
    by (rule fmul_window(1)[OF w2 D]) simp_all
  have m2: "window (1 + - 250) (1 + 250) (b64 (2 * D))"
    by (rule fmul_window(2)[OF w2 D]) simp_all
  have n1: "fmul (ieee P) (Fin (b64 (2 * D))) (Fin (of_int N)) = Fin (b64 (b64 (2 * D) * of_int N))"
    by (rule fmul_window(1)[OF m2 wn]) simp_all
  have n2: "window (1 + - 250 + 0) (1 + 250 + 53) (b64 (b64 (2 * D) * of_int N))"
    by (rule fmul_window(2)[OF m2 wn]) simp_all
  have "two_D_N (ieee P) (Fin D) N = Inr (Fin (b64 (b64 (2 * D) * of_int N)))"
    unfolding two_D_N_def i seq_Inr m1 n1 ..
  moreover have "window (- 249) 304 (b64 (b64 (2 * D) * of_int N))" using n2 by simp
  ultimately show ?thesis by blast
qed

lemma cube_bounds:
  fixes w :: real
  assumes "0 \<le> w" "w \<le> 1/2"
  shows "1 / 8 \<le> (1 - w) ^ 3" "(1 + w) ^ 3 \<le> 4"
proof -
  have "(1/2) ^ 3 \<le> (1 - w) ^ 3" using assms by (intro power_mono) simp_all
  then show "1 / 8 \<le> (1 - w) ^ 3" by (simp add: power_divide)
  have "(1 + w) ^ 3 \<le> (3/2) ^ 3" using assms by (intro power_mono) simp_all
  also have "\<dots> \<le> (4::real)" by (simp add: power_divide)
  finally show "(1 + w) ^ 3 \<le> 4" .
qed

text \<open>
  The round trip passes a \<^verbatim>\<open>pow\<close> and five roundings, one of them the rounding of
  \<^verbatim>\<open>1.*x\<close>, which changes nothing, and the square root halves the effect of the first
  four.
\<close>

lemma round_trip_window:
  assumes P: "pow_within P w" and w: "1 / 2 ^ 53 \<le> w" "w \<le> 1/2"
    and s: "window (- 250) 250 sigma" and D: "window (- 250) 250 D"
    and N: "1 \<le> N" "N < 2 ^ 53"
  shows "\<exists>t s'. diffusion_time (ieee P) (Fin sigma) (Fin D) N = Inr (Fin t) \<and>
           sigma_displacement (ieee P) (Fin D) N (Fin t) = Inr (Fin s') \<and>
           sigma * (1 - w) ^ 3 \<le> s' \<and> s' \<le> sigma * (1 + w) ^ 3"
proof -
  have w0: "0 \<le> w" using w(1) by (rule order_trans[rotated]) simp
  have u: "0 \<le> 1 - w" "0 \<le> 1 + w" using w0 w(2) by simp_all
  have A: "accurate b64 w" using w by (intro accurate_b64) simp_all
  have s0: "0 < sigma" using s by (rule window_pos)
  define c where "c = sigma * sigma"
  have c0: "0 \<le> c" "0 < c" using s0 by (simp_all add: c_def)
  have "window (- 250 + - 250) (250 + 250) (sigma * sigma)" using s s by (rule window_mult)
  then have wc: "window (- 500) 500 c" by (simp add: c_def)
  from fsquare_window[OF P w(2) wc[unfolded c_def] s0] obtain q where
    q: "fsquare (ieee P) (Fin sigma) = Inr (Fin q)" "\<bar>q - c\<bar> \<le> w * c"
      "window (- 500 - 1) (500 + 1) q" unfolding c_def by auto
  from two_D_N_window[OF D N, of P] obtain p where
    p: "two_D_N (ieee P) (Fin D) N = Inr (Fin p)" "window (- 249) 304 p" by blast
  have p0: "0 < p" using p(2) by (rule window_pos)
  have one: "lit (ieee P) 1 = Fin 1" by (simp add: lit_def)
  have w1: "window 0 0 1" by (simp add: window_def)
  define a where "a = b64 (1 * q)"
  have a1: "fmul (ieee P) (Fin 1) (Fin q) = Fin a"
    unfolding a_def by (rule fmul_window(1)[OF w1 q(3)]) simp_all
  have a2: "window (0 + (- 500 - 1)) (0 + (500 + 1)) a"
    unfolding a_def by (rule fmul_window(2)[OF w1 q(3)]) simp_all
  define t where "t = b64 (a / p)"
  have t1: "fdiv (ieee P) (Fin a) (Fin p) = Inr (Fin t)"
    unfolding t_def by (rule fdiv_window(1)[OF a2 p(2)]) simp_all
  have dt: "diffusion_time (ieee P) (Fin sigma) (Fin D) N = Inr (Fin t)"
    unfolding diffusion_time_def q(1) seq_Inr p(1) one a1 t1 ..
  have qb: "c * (1 - w) ^ Suc 0 \<le> q" "q \<le> c * (1 + w) ^ Suc 0"
    using q(2) by (simp_all add: algebra_simps abs_le_iff)
  have ab: "c * (1 - w) ^ Suc (Suc 0) \<le> a" "a \<le> c * (1 + w) ^ Suc (Suc 0)"
    unfolding a_def using acc_scaled[OF A c0(1) qb] by simp_all
  have aP: "c / p * (1 - w) ^ Suc (Suc 0) \<le> a / p" "a / p \<le> c / p * (1 + w) ^ Suc (Suc 0)"
    using ab p0 by (simp_all add: divide_right_mono)
  have cP0: "0 \<le> c / p" using c0 p0 by simp
  have tb: "c / p * (1 - w) ^ 3 \<le> t" "t \<le> c / p * (1 + w) ^ 3"
    unfolding t_def using acc_scaled[OF A cP0 aP] by (simp_all add: eval_nat_numeral)
  have Pt: "c * (1 - w) ^ 3 \<le> p * t" "p * t \<le> c * (1 + w) ^ 3"
  proof -
    have "p * (c / p * (1 - w) ^ 3) \<le> p * t" using tb(1) p0 by (intro mult_left_mono) simp_all
    then show "c * (1 - w) ^ 3 \<le> p * t" using p0 by simp
    have "p * t \<le> p * (c / p * (1 + w) ^ 3)" using tb(2) p0 by (intro mult_left_mono) simp_all
    then show "p * t \<le> c * (1 + w) ^ 3" using p0 by simp
  qed
  have wpt: "window (2 * (- 252)) (2 * 252) (p * t)"
  proof -
    note cb = cube_bounds[OF w0 w(2)]
    have c: "2 powi (- 500) \<le> c" "c \<le> 2 powi 500" using wc by (simp_all add: window_def)
    have "2 powi (- 500) * (1 / 8) \<le> c * (1 - w) ^ 3"
      using c(1) cb(1) c0 by (intro mult_mono) simp_all
    moreover have "c * (1 + w) ^ 3 \<le> 2 powi 500 * 4"
      using c(2) cb(2) c0 u by (intro mult_mono) simp_all
    moreover have "(2::real) powi (- 503) = 2 powi (- 500) * (1 / 8)"
      "(2::real) powi 502 = 2 powi 500 * 4"
      by (simp_all add: power_int_minus divide_simps)
    ultimately have "window (- 503) 502 (p * t)" using Pt by (simp add: window_def)
    then show ?thesis by (rule window_mono) simp_all
  qed
  have tpos: "0 < t"
  proof -
    have "0 < p * t" using wpt by (rule window_pos)
    then show ?thesis using p0 by (simp add: zero_less_mult_iff)
  qed
  define r where "r = b64 (p * t)"
  have r1: "fmul (ieee P) (Fin p) (Fin t) = Fin r"
    unfolding r_def using to_double_window[OF wpt] by simp
  have r2: "window (2 * (- 252)) (2 * 252) r" unfolding r_def using wpt by (rule window_b64)
  define s' where "s' = b64 (sqrt r)"
  have s1: "np_sqrt (ieee P) (Fin r) = Fin s'"
    unfolding s'_def by (rule np_sqrt_window(1)[OF r2]) simp_all
  have sd: "sigma_displacement (ieee P) (Fin D) N (Fin t) = Inr (Fin s')"
    unfolding sigma_displacement_def p(1) seq_Inr r1 s1 ..
  have rb: "c * (1 - w) ^ 4 \<le> r" "r \<le> c * (1 + w) ^ 4"
    unfolding r_def using acc_scaled[OF A c0(1) Pt] by (simp_all add: eval_nat_numeral)
  have lo: "(sigma * (1 - w) ^ 2)\<^sup>2 \<le> r"
  proof -
    have "(sigma * (1 - w) ^ 2)\<^sup>2 = c * (1 - w) ^ 4"
      by (simp add: c_def power2_eq_square eval_nat_numeral algebra_simps)
    then show ?thesis using rb(1) by simp
  qed
  have hi: "r \<le> (sigma * (1 + w) ^ 2)\<^sup>2"
  proof -
    have "(sigma * (1 + w) ^ 2)\<^sup>2 = c * (1 + w) ^ 4"
      by (simp add: c_def power2_eq_square eval_nat_numeral algebra_simps)
    then show ?thesis using rb(2) by simp
  qed
  have sq: "sigma * (1 - w) ^ 2 \<le> sqrt r" "sqrt r \<le> sigma * (1 + w) ^ 2"
  proof -
    have "0 \<le> sigma * (1 - w) ^ 2" "0 \<le> sigma * (1 + w) ^ 2" using s0 u by simp_all
    then show "sigma * (1 - w) ^ 2 \<le> sqrt r" "sqrt r \<le> sigma * (1 + w) ^ 2"
      using lo hi by (simp_all add: real_le_rsqrt real_le_lsqrt)
  qed
  have s00: "0 \<le> sigma" using s0 by simp
  have fin: "sigma * (1 - w) ^ 3 \<le> s'" "s' \<le> sigma * (1 + w) ^ 3"
    unfolding s'_def using acc_scaled[OF A s00 sq] by (simp_all add: eval_nat_numeral)
  from dt sd fin show ?thesis by blast
qed

lemma cube_gap:
  fixes w :: real
  assumes "0 \<le> w" "w \<le> 1"
  shows "1 - (1 - w) ^ 3 \<le> (1 + w) ^ 3 - 1"
proof -
  have "(1 + w) ^ 3 - 1 - (1 - (1 - w) ^ 3) = 6 * w\<^sup>2"
    by (simp add: eval_nat_numeral algebra_simps)
  moreover have "0 \<le> 6 * w\<^sup>2" by simp
  ultimately show ?thesis by linarith
qed

section \<open>The claims\<close>

text \<open>
  C1. With \<open>d = 5e-9\<close>, \<open>eta = 1.0e-3\<close>, \<open>kB = 1.38e-23\<close> and \<open>T = 293\<close> the
  Stokes-Einstein formula returns about \<open>8.580e-11\<close>, and the rescaling by \<open>(1e9)**2/1e6\<close>
  about \<open>85.80\<close>: both results agree with these decimals to the digits given. In binary64
  the two results are the doubles the notebook shows, \<open>8.580361291970262e-11\<close> and
  \<open>85.80361291970262\<close>; in exact arithmetic they are \<open>26.956e-11 / pi\<close> and
  \<open>269.56 / pi\<close>. They are the first two values a run of the notebook displays.
\<close>

theorem stokes_einstein_scenario:
  "D_stokes_einstein binary64 (lit binary64 (1.38 / 10 ^ 23)) 293
     (lit binary64 (1.0 / 10 ^ 3)) (lit binary64 (5 / 10 ^ 9)) =
     Inr (lit binary64 (8.580361291970262 / 10 ^ 11)) \<and>
   rescale binary64 (lit binary64 (8.580361291970262 / 10 ^ 11)) (lit binary64 (10 ^ 9))
     (lit binary64 (10 ^ 6)) = Inr (lit binary64 85.80361291970262) \<and>
   (\<exists>x. lit binary64 (8.580361291970262 / 10 ^ 11) = Fin x \<and>
      \<bar>x - 8.580 / 10 ^ 11\<bar> < 5 / 10 ^ 15) \<and>
   (\<exists>x. lit binary64 85.80361291970262 = Fin x \<and> \<bar>x - 85.80\<bar> < 5 / 10 ^ 3) \<and>
   D_stokes_einstein exact (lit exact (1.38 / 10 ^ 23)) 293
     (lit exact (1.0 / 10 ^ 3)) (lit exact (5 / 10 ^ 9)) = Inr (Fin (26.956 / 10 ^ 11 / pi)) \<and>
   rescale exact (Fin (26.956 / 10 ^ 11 / pi)) (lit exact (10 ^ 9)) (lit exact (10 ^ 6)) =
     Inr (Fin (269.56 / pi)) \<and>
   \<bar>26.956 / 10 ^ 11 / pi - 8.580 / 10 ^ 11\<bar> < 5 / 10 ^ 15 \<and>
   \<bar>269.56 / pi - 85.80\<bar> < 5 / 10 ^ 3 \<and>
   (\<exists>st. run_notebook binary64 = Inr st \<and>
      shown st ! 0 = lit binary64 (8.580361291970262 / 10 ^ 11) \<and>
      shown st ! 1 = lit binary64 85.80361291970262) \<and>
   (\<exists>st. run_notebook exact = Inr st \<and>
      shown st ! 0 = Fin (26.956 / 10 ^ 11 / pi) \<and> shown st ! 1 = Fin (269.56 / pi))"
proof -
  have b1: "D_stokes_einstein binary64 (lit binary64 (1.38 / 10 ^ 23)) 293
     (lit binary64 (1.0 / 10 ^ 3)) (lit binary64 (5 / 10 ^ 9)) =
     Inr (lit binary64 (8.580361291970262 / 10 ^ 11))"
    unfolding out_2 by (rule D_stokes_binary64)
  have b2: "rescale binary64 (lit binary64 (8.580361291970262 / 10 ^ 11)) (lit binary64 (10 ^ 9))
     (lit binary64 (10 ^ 6)) = Inr (lit binary64 85.80361291970262)"
    unfolding out_2 out_3 by (rule rescale_nm_binary64)
  have b3: "\<exists>x. lit binary64 (8.580361291970262 / 10 ^ 11) = Fin x \<and>
      \<bar>x - 8.580 / 10 ^ 11\<bar> < 5 / 10 ^ 15"
    unfolding out_2 by (intro exI conjI, rule refl) simp
  have b4: "\<exists>x. lit binary64 85.80361291970262 = Fin x \<and> \<bar>x - 85.80\<bar> < 5 / 10 ^ 3"
    unfolding out_3 by (intro exI conjI, rule refl) simp
  have e1: "D_stokes_einstein exact (lit exact (1.38 / 10 ^ 23)) 293
     (lit exact (1.0 / 10 ^ 3)) (lit exact (5 / 10 ^ 9)) = Inr (Fin (26.956 / 10 ^ 11 / pi))"
    by (simp add: D_stokes_einstein_exact lit_exact)
  have e2: "rescale exact (Fin (26.956 / 10 ^ 11 / pi)) (lit exact (10 ^ 9)) (lit exact (10 ^ 6)) =
     Inr (Fin (269.56 / pi))"
    by (simp add: rescale_exact lit_exact)
  define q where "q = 26.956 / pi"
  have lo: "8.5795 < q" and hi: "q < 8.5805"
    unfolding q_def using pi_bounds by (simp_all add: field_simps)
  have q1: "26.956 / 10 ^ 11 / pi = q / 10 ^ 11" and q2: "269.56 / pi = q * 10"
    by (simp_all add: q_def)
  have e3: "\<bar>26.956 / 10 ^ 11 / pi - 8.580 / 10 ^ 11\<bar> < 5 / 10 ^ 15"
    unfolding q1 abs_less_iff using lo hi by simp
  have e4: "\<bar>269.56 / pi - 85.80\<bar> < 5 / 10 ^ 3"
    unfolding q2 abs_less_iff using lo hi by simp
  have rb: "\<exists>st. run_notebook binary64 = Inr st \<and>
      shown st ! 0 = lit binary64 (8.580361291970262 / 10 ^ 11) \<and>
      shown st ! 1 = lit binary64 85.80361291970262"
    unfolding run_notebook_binary64 out_2 out_3 by simp
  have re: "\<exists>st. run_notebook exact = Inr st \<and>
      shown st ! 0 = Fin (26.956 / 10 ^ 11 / pi) \<and> shown st ! 1 = Fin (269.56 / pi)"
    unfolding run_notebook_exact by simp
  from b1 b2 b3 b4 e1 e2 e3 e4 rb re show ?thesis by blast
qed

text \<open>
  C2. With \<open>S_spot = 0.8e-6\<close>, \<open>N = 3\<close> and \<open>tau_spot = 1e-3\<close> the spot formula returns
  about \<open>1.0667e-10\<close>, and the rescaling by \<open>(1e6)**2/1e3\<close> about \<open>0.10667\<close>. In
  binary64 the results are the doubles the notebook shows, \<open>1.0666666666666665e-10\<close>
  and \<open>0.10666666666666665\<close>; in exact arithmetic they are \<open>16/15\<close> of \<open>1e-10\<close> and
  \<open>8/75\<close>. They are the third and fourth value a run of the notebook displays.
\<close>

theorem spot_scenario:
  "D_spot binary64 (lit binary64 (0.8 / 10 ^ 6)) 3 (lit binary64 (1 / 10 ^ 3)) =
     Inr (lit binary64 (1.0666666666666665 / 10 ^ 10)) \<and>
   rescale binary64 (lit binary64 (1.0666666666666665 / 10 ^ 10)) (lit binary64 (10 ^ 6))
     (lit binary64 (10 ^ 3)) = Inr (lit binary64 0.10666666666666665) \<and>
   (\<exists>x. lit binary64 (1.0666666666666665 / 10 ^ 10) = Fin x \<and>
      \<bar>x - 1.0667 / 10 ^ 10\<bar> < 5 / 10 ^ 15) \<and>
   (\<exists>x. lit binary64 0.10666666666666665 = Fin x \<and> \<bar>x - 0.10667\<bar> < 5 / 10 ^ 6) \<and>
   D_spot exact (lit exact (0.8 / 10 ^ 6)) 3 (lit exact (1 / 10 ^ 3)) =
     Inr (Fin (16 / 15 / 10 ^ 10)) \<and>
   rescale exact (Fin (16 / 15 / 10 ^ 10)) (lit exact (10 ^ 6)) (lit exact (10 ^ 3)) =
     Inr (Fin (8 / 75)) \<and>
   \<bar>16 / 15 / 10 ^ 10 - 1.0667 / 10 ^ 10\<bar> < (5 / 10 ^ 15 :: real) \<and>
   \<bar>8 / 75 - 0.10667\<bar> < (5 / 10 ^ 6 :: real) \<and>
   (\<exists>st. run_notebook binary64 = Inr st \<and>
      shown st ! 2 = lit binary64 (1.0666666666666665 / 10 ^ 10) \<and>
      shown st ! 3 = lit binary64 0.10666666666666665) \<and>
   (\<exists>st. run_notebook exact = Inr st \<and>
      shown st ! 2 = Fin (16 / 15 / 10 ^ 10) \<and> shown st ! 3 = Fin (8 / 75))"
proof -
  have b1: "D_spot binary64 (lit binary64 (0.8 / 10 ^ 6)) 3 (lit binary64 (1 / 10 ^ 3)) =
     Inr (lit binary64 (1.0666666666666665 / 10 ^ 10))"
    unfolding out_4 by (rule D_spot_binary64)
  have b2: "rescale binary64 (lit binary64 (1.0666666666666665 / 10 ^ 10)) (lit binary64 (10 ^ 6))
     (lit binary64 (10 ^ 3)) = Inr (lit binary64 0.10666666666666665)"
    unfolding out_4 out_5 by (rule rescale_um_binary64)
  have b3: "\<exists>x. lit binary64 (1.0666666666666665 / 10 ^ 10) = Fin x \<and>
      \<bar>x - 1.0667 / 10 ^ 10\<bar> < 5 / 10 ^ 15"
    unfolding out_4 by (intro exI conjI, rule refl) simp
  have b4: "\<exists>x. lit binary64 0.10666666666666665 = Fin x \<and> \<bar>x - 0.10667\<bar> < 5 / 10 ^ 6"
    unfolding out_5 by (intro exI conjI, rule refl) simp
  have e1: "D_spot exact (lit exact (0.8 / 10 ^ 6)) 3 (lit exact (1 / 10 ^ 3)) =
     Inr (Fin (16 / 15 / 10 ^ 10))"
    by (simp add: D_spot_exact lit_exact power_divide)
  have e2: "rescale exact (Fin (16 / 15 / 10 ^ 10)) (lit exact (10 ^ 6)) (lit exact (10 ^ 3)) =
     Inr (Fin (8 / 75))"
    by (simp add: rescale_exact lit_exact)
  have e3: "\<bar>16 / 15 / 10 ^ 10 - 1.0667 / 10 ^ 10\<bar> < (5 / 10 ^ 15 :: real)"
    by simp
  have e4: "\<bar>8 / 75 - 0.10667\<bar> < (5 / 10 ^ 6 :: real)"
    by simp
  have rb: "\<exists>st. run_notebook binary64 = Inr st \<and>
      shown st ! 2 = lit binary64 (1.0666666666666665 / 10 ^ 10) \<and>
      shown st ! 3 = lit binary64 0.10666666666666665"
    unfolding run_notebook_binary64 out_4 out_5 by simp
  have re: "\<exists>st. run_notebook exact = Inr st \<and>
      shown st ! 2 = Fin (16 / 15 / 10 ^ 10) \<and> shown st ! 3 = Fin (8 / 75)"
    unfolding run_notebook_exact by simp
  from b1 b2 b3 b4 e1 e2 e3 e4 rb re show ?thesis by blast
qed

text \<open>
  C3. Run from a fresh kernel, in binary64 and in exact arithmetic, the notebook leaves the
  spot-derived value in \<open>D\<close>, computes \<open>sigma\<close> from it with \<open>N = 3\<close> and
  \<open>time = 10\<close>, and its first printed line is
  \<^verbatim>\<open>Displacement (std_dev): 80.00 um\<close>. \<open>sigma\<close> is \<open>80\<close> micrometres up to less than
  half a unit of the second decimal: exactly \<open>8e-5\<close> m in exact arithmetic, the double
  \<open>7.999999999999999e-05\<close> in binary64.
\<close>

theorem sigma_scenario:
  "(\<exists>st D s. run_notebook binary64 = Inr st \<and>
      D_spot binary64 (lit binary64 (0.8 / 10 ^ 6)) 3 (lit binary64 (1 / 10 ^ 3)) = Inr D \<and>
      sigma_displacement binary64 D 3 (lit binary64 10) = Inr (Fin s) \<and>
      v_sigma st = Some (Fin s) \<and> s = 5902958103587056 / 2 ^ 66 \<and>
      \<bar>s * 10 ^ 6 - 80.00\<bar> < 5 / 10 ^ 3 \<and>
      stdout st ! 0 = ''Displacement (std_dev): 80.00 um'') \<and>
   (\<exists>st D s. run_notebook exact = Inr st \<and>
      D_spot exact (lit exact (0.8 / 10 ^ 6)) 3 (lit exact (1 / 10 ^ 3)) = Inr D \<and>
      sigma_displacement exact D 3 (lit exact 10) = Inr (Fin s) \<and>
      v_sigma st = Some (Fin s) \<and> s = 8 / 10 ^ 5 \<and>
      \<bar>s * 10 ^ 6 - 80.00\<bar> < 5 / 10 ^ 3 \<and>
      stdout st ! 0 = ''Displacement (std_dev): 80.00 um'')"
proof (intro conjI)
  show "\<exists>st D s. run_notebook binary64 = Inr st \<and>
      D_spot binary64 (lit binary64 (0.8 / 10 ^ 6)) 3 (lit binary64 (1 / 10 ^ 3)) = Inr D \<and>
      sigma_displacement binary64 D 3 (lit binary64 10) = Inr (Fin s) \<and>
      v_sigma st = Some (Fin s) \<and> s = 5902958103587056 / 2 ^ 66 \<and>
      \<bar>s * 10 ^ 6 - 80.00\<bar> < 5 / 10 ^ 3 \<and>
      stdout st ! 0 = ''Displacement (std_dev): 80.00 um''"
    unfolding run_notebook_binary64
    by (intro exI conjI, rule refl, rule D_spot_binary64, rule sigma_binary64) simp_all
  have h1: "sigma_displacement exact (Fin (16 / 15 / 10 ^ 10)) 3 (lit exact 10) = Inr (Fin (8 / 10 ^ 5))"
    using sqrt_sigma_exact by (simp add: sigma_displacement_exact lit_exact del: real_sqrt_divide)
  have h2: "D_spot exact (lit exact (0.8 / 10 ^ 6)) 3 (lit exact (1 / 10 ^ 3)) =
      Inr (Fin (16 / 15 / 10 ^ 10))"
    by (simp add: D_spot_exact lit_exact power_divide)
  show "\<exists>st D s. run_notebook exact = Inr st \<and>
      D_spot exact (lit exact (0.8 / 10 ^ 6)) 3 (lit exact (1 / 10 ^ 3)) = Inr D \<and>
      sigma_displacement exact D 3 (lit exact 10) = Inr (Fin s) \<and>
      v_sigma st = Some (Fin s) \<and> s = 8 / 10 ^ 5 \<and>
      \<bar>s * 10 ^ 6 - 80.00\<bar> < 5 / 10 ^ 3 \<and>
      stdout st ! 0 = ''Displacement (std_dev): 80.00 um''"
    unfolding run_notebook_exact
    by (intro exI conjI, rule refl, rule h2, rule h1) simp_all
qed

text \<open>
  C4. In the same runs the last cell computes \<open>time\<close> from the spot-derived \<open>D\<close> with
  \<open>N = 3\<close> and \<open>space = 0.1e-3\<close>, and the second printed line is
  \<^verbatim>\<open>Time for 100.0 um displacement: 15.6 s\<close>. \<open>time\<close> is \<open>15.6\<close> up to less than half
  a unit of the first decimal: exactly \<open>15.625\<close> in exact arithmetic, the double
  \<open>15.625000000000004\<close> in binary64.
\<close>

theorem time_scenario:
  "(\<exists>st D t. run_notebook binary64 = Inr st \<and>
      D_spot binary64 (lit binary64 (0.8 / 10 ^ 6)) 3 (lit binary64 (1 / 10 ^ 3)) = Inr D \<and>
      diffusion_time binary64 (lit binary64 (0.1 / 10 ^ 3)) D 3 = Inr (Fin t) \<and>
      v_time st = Some (Fin t) \<and> t = 8796093022208002 / 2 ^ 49 \<and>
      \<bar>t - 15.6\<bar> < 5 / 10 ^ 2 \<and>
      stdout st ! 1 = ''Time for 100.0 um displacement: 15.6 s'') \<and>
   (\<exists>st D t. run_notebook exact = Inr st \<and>
      D_spot exact (lit exact (0.8 / 10 ^ 6)) 3 (lit exact (1 / 10 ^ 3)) = Inr D \<and>
      diffusion_time exact (lit exact (0.1 / 10 ^ 3)) D 3 = Inr (Fin t) \<and>
      v_time st = Some (Fin t) \<and> t = 15.625 \<and>
      \<bar>t - 15.6\<bar> < 5 / 10 ^ 2 \<and>
      stdout st ! 1 = ''Time for 100.0 um displacement: 15.6 s'')"
proof (intro conjI)
  show "\<exists>st D t. run_notebook binary64 = Inr st \<and>
      D_spot binary64 (lit binary64 (0.8 / 10 ^ 6)) 3 (lit binary64 (1 / 10 ^ 3)) = Inr D \<and>
      diffusion_time binary64 (lit binary64 (0.1 / 10 ^ 3)) D 3 = Inr (Fin t) \<and>
      v_time st = Some (Fin t) \<and> t = 8796093022208002 / 2 ^ 49 \<and>
      \<bar>t - 15.6\<bar> < 5 / 10 ^ 2 \<and>
      stdout st ! 1 = ''Time for 100.0 um displacement: 15.6 s''"
    unfolding run_notebook_binary64
    by (intro exI conjI, rule refl, rule D_spot_binary64, rule time_binary64) simp_all
  have h1: "diffusion_time exact (lit exact (0.1 / 10 ^ 3)) (Fin (16 / 15 / 10 ^ 10)) 3 = Inr (Fin 15.625)"
    by (simp add: diffusion_time_exact lit_exact power_divide)
  have h2: "D_spot exact (lit exact (0.8 / 10 ^ 6)) 3 (lit exact (1 / 10 ^ 3)) =
      Inr (Fin (16 / 15 / 10 ^ 10))"
    by (simp add: D_spot_exact lit_exact power_divide)
  show "\<exists>st D t. run_notebook exact = Inr st \<and>
      D_spot exact (lit exact (0.8 / 10 ^ 6)) 3 (lit exact (1 / 10 ^ 3)) = Inr D \<and>
      diffusion_time exact (lit exact (0.1 / 10 ^ 3)) D 3 = Inr (Fin t) \<and>
      v_time st = Some (Fin t) \<and> t = 15.625 \<and>
      \<bar>t - 15.6\<bar> < 5 / 10 ^ 2 \<and>
      stdout st ! 1 = ''Time for 100.0 um displacement: 15.6 s''"
    unfolding run_notebook_exact
    by (intro exI conjI, rule refl, rule h2, rule h1) simp_all
qed

text \<open>
  C5, as the claim is written, fails on the code: no cell validates its inputs and the
  notebook has no error kind of its own. With \<open>S_spot = 1.0\<close>, \<open>N = -1\<close> and
  \<open>tau_spot = 1.0\<close> the denominator \<open>2*N*tau_spot\<close> is \<open>-2.0\<close>, and the spot formula
  returns \<open>-0.5\<close>; with \<open>space = 1.0\<close>, \<open>D = -1.0\<close> and \<open>N = 1\<close> the time formula
  returns \<open>-0.5\<close>; with \<open>D = -1.0\<close>, \<open>N = 3\<close> and \<open>time = 1.0\<close> the radicand is
  \<open>-6.0\<close> and \<open>np.sqrt\<close> returns \<open>nan\<close>. None raises. With \<open>N = 0\<close> the spot formula
  does raise, and what it raises is \<^verbatim>\<open>ZeroDivisionError\<close>.
\<close>

theorem no_validation_counterexample:
  "D_spot binary64 (Fin 1) (- 1) (Fin 1) = Inr (Fin (- 1 / 2)) \<and>
   diffusion_time binary64 (Fin 1) (Fin (- 1)) 1 = Inr (Fin (- 1 / 2)) \<and>
   two_D_N binary64 (Fin (- 1)) 3 = Inr (Fin (- 6)) \<and>
   fmul binary64 (Fin (- 6)) (Fin 1) = Fin (- 6) \<and>
   sigma_displacement binary64 (Fin (- 1)) 3 (Fin 1) = Inr NaN \<and>
   D_spot binary64 (Fin 1) 0 (Fin 1) = Inl ZeroDivisionError"
proof -
  have i: "int_to_float binary64 n = Inr (Fin (of_int n))" if "\<bar>n\<bar> < 2 ^ 53" for n
    unfolding binary64_def using that by (rule int_to_float_small)
  have m: "to_double (- 2) = Fin (- 2)" "to_double (- 6) = Fin (- 6)"
    using to_double_of_int[of "- 2"] to_double_of_int[of "- 6"] by simp_all
  have h: "to_double (- (1 / 2)) = Fin (- (1 / 2))"
    by (rule to_double_evalI[where m = "- 4503599627370496" and e = "- 53"]) simp_all
  have a: "D_spot binary64 (Fin 1) (- 1) (Fin 1) = Inr (Fin (- 1 / 2))"
    by (simp add: D_spot_def pow2_binary64 i seq_Inr fdiv_def rnd_binary64 m h)
  have p: "two_D_N binary64 (Fin (- 1)) 1 = Inr (Fin (- 2))"
    "two_D_N binary64 (Fin (- 1)) 3 = Inr (Fin (- 6))"
    by (simp_all add: two_D_N_def i seq_Inr rnd_binary64 m)
  have b: "diffusion_time binary64 (Fin 1) (Fin (- 1)) 1 = Inr (Fin (- 1 / 2))"
    by (simp add: diffusion_time_def pow2_binary64 p seq_Inr lit_def fdiv_def rnd_binary64 h)
  have c: "fmul binary64 (Fin (- 6)) (Fin 1) = Fin (- 6)"
    by (simp add: rnd_binary64 m)
  have d: "sigma_displacement binary64 (Fin (- 1)) 3 (Fin 1) = Inr NaN"
    by (simp add: sigma_displacement_def p seq_Inr rnd_binary64 m)
  have e: "D_spot binary64 (Fin 1) 0 (Fin 1) = Inl ZeroDivisionError"
    by (simp add: D_spot_def pow2_binary64 i seq_Inr fdiv_def rnd_binary64)
  from a b p(2) c d e show ?thesis by blast
qed

text \<open>
  C5 as amended, in the interpreter's arithmetic and for finite floats as inputs. No
  formula validates anything; an evaluation raises only the interpreter's own two
  arithmetic errors, and for every other input it returns a float.
  \<^item> It raises \<^verbatim>\<open>OverflowError\<close> exactly when a square \<^verbatim>\<open>x**2\<close> overflows, or an \<^verbatim>\<open>int\<close>
    (\<open>T\<close>, \<open>2*N\<close> or \<open>N\<close>) is too large for a float, that is of magnitude \<open>huge\<close> or more.
    With a correctly rounded \<^verbatim>\<open>pow\<close> the square of \<open>x\<close> overflows exactly when
    \<open>x * x\<close> is \<open>huge\<close> or more.
  \<^item> Otherwise it raises \<^verbatim>\<open>ZeroDivisionError\<close> exactly when the denominator it has
    computed is zero: when the last product of the denominator is of magnitude \<open>tiny\<close>
    or less, be it that a factor is zero or that the product underflows. (The number
    \<open>5305678314021330 / 2 ^ 49\<close> is the double \<^verbatim>\<open>3*np.pi\<close>.)
  \<^item> The square-root formula raises for no \<open>D\<close> and no \<open>time\<close>.
\<close>

theorem raises_only_python_errors:
  "(D_stokes_einstein (ieee P) (Fin kB) T (Fin eta) (Fin d) = Inl e \<longleftrightarrow>
      e = OverflowError \<and> huge \<le> \<bar>of_int T\<bar> \<or>
      e = ZeroDivisionError \<and> \<bar>of_int T\<bar> < huge \<and>
        \<bar>5305678314021330 / 2 ^ 49 * eta\<bar> < huge \<and>
        \<bar>nearest (5305678314021330 / 2 ^ 49 * eta) * d\<bar> \<le> tiny) \<and>
   (rescale (ieee P) (Fin D) (Fin len) (Fin tim) = Inl e \<longleftrightarrow>
      e = OverflowError \<and> overflows P len \<or>
      e = ZeroDivisionError \<and> \<not> overflows P len \<and> tim = 0) \<and>
   (D_spot (ieee P) (Fin S_spot) N (Fin tau_spot) = Inl e \<longleftrightarrow>
      e = OverflowError \<and> (overflows P S_spot \<or> huge \<le> \<bar>of_int (2 * N)\<bar>) \<or>
      e = ZeroDivisionError \<and> \<not> overflows P S_spot \<and> \<bar>of_int (2 * N)\<bar> < huge \<and>
        \<bar>nearest (of_int (2 * N)) * tau_spot\<bar> \<le> tiny) \<and>
   (diffusion_time (ieee P) (Fin space) (Fin D) N = Inl e \<longleftrightarrow>
      e = OverflowError \<and> (overflows P space \<or> huge \<le> \<bar>of_int N\<bar>) \<or>
      e = ZeroDivisionError \<and> \<not> overflows P space \<and> \<bar>of_int N\<bar> < huge \<and>
        \<bar>2 * D\<bar> < huge \<and> \<bar>nearest (2 * D) * nearest (of_int N)\<bar> \<le> tiny) \<and>
   (sigma_displacement (ieee P) (Fin D) N (Fin time) = Inl e \<longleftrightarrow>
      e = OverflowError \<and> huge \<le> \<bar>of_int N\<bar>) \<and>
   (overflows (pow2 binary64) x \<longleftrightarrow> huge \<le> x * x)"
proof (intro conjI)
  have three: "int_to_float (ieee P) 3 = Inr (Fin 3)" "int_to_float (ieee P) 2 = Inr (Fin 2)"
    using int_to_float_small[of 3 P] int_to_float_small[of 2 P] by simp_all
  show "D_stokes_einstein (ieee P) (Fin kB) T (Fin eta) (Fin d) = Inl e \<longleftrightarrow>
      e = OverflowError \<and> huge \<le> \<bar>of_int T\<bar> \<or>
      e = ZeroDivisionError \<and> \<bar>of_int T\<bar> < huge \<and>
        \<bar>5305678314021330 / 2 ^ 49 * eta\<bar> < huge \<and>
        \<bar>nearest (5305678314021330 / 2 ^ 49 * eta) * d\<bar> \<le> tiny"
    unfolding D_stokes_einstein_def three seq_Inr three_pi_ieee
    by (auto simp: int_to_float_ieee seq_def fdiv_def fmul_ieee_zero_iff to_double_split)
  show "rescale (ieee P) (Fin D) (Fin len) (Fin tim) = Inl e \<longleftrightarrow>
      e = OverflowError \<and> overflows P len \<or>
      e = ZeroDivisionError \<and> \<not> overflows P len \<and> tim = 0"
    unfolding rescale_def fsquare_ieee
    by (auto simp: seq_def fdiv_def)
  show "D_spot (ieee P) (Fin S_spot) N (Fin tau_spot) = Inl e \<longleftrightarrow>
      e = OverflowError \<and> (overflows P S_spot \<or> huge \<le> \<bar>of_int (2 * N)\<bar>) \<or>
      e = ZeroDivisionError \<and> \<not> overflows P S_spot \<and> \<bar>of_int (2 * N)\<bar> < huge \<and>
        \<bar>nearest (of_int (2 * N)) * tau_spot\<bar> \<le> tiny"
    unfolding D_spot_def fsquare_ieee int_to_float_ieee
    by (auto simp: seq_def fdiv_def fmul_ieee_zero_iff)
  show "diffusion_time (ieee P) (Fin space) (Fin D) N = Inl e \<longleftrightarrow>
      e = OverflowError \<and> (overflows P space \<or> huge \<le> \<bar>of_int N\<bar>) \<or>
      e = ZeroDivisionError \<and> \<not> overflows P space \<and> \<bar>of_int N\<bar> < huge \<and>
        \<bar>2 * D\<bar> < huge \<and> \<bar>nearest (2 * D) * nearest (of_int N)\<bar> \<le> tiny"
    unfolding diffusion_time_def two_D_N_def fsquare_ieee three seq_Inr
    by (auto simp: int_to_float_ieee seq_def fdiv_def fmul_ieee_zero_iff to_double_split)
  show "sigma_displacement (ieee P) (Fin D) N (Fin time) = Inl e \<longleftrightarrow>
      e = OverflowError \<and> huge \<le> \<bar>of_int N\<bar>"
    unfolding sigma_displacement_def two_D_N_def three seq_Inr
    by (auto simp: int_to_float_ieee seq_def)
  show "overflows (pow2 binary64) x \<longleftrightarrow> huge \<le> x * x"
    unfolding binary64_def pow2_ieee by (rule overflows_binary64)
qed

theorem raises_only_python_errors_witness:
  "D_stokes_einstein binary64 (Fin (4695896663508951 / 2 ^ 128)) 293
     (Fin (6894565328877484 / 2 ^ 717)) (Fin (6894565328877484 / 2 ^ 717)) =
     Inl ZeroDivisionError \<and>
   (6894565328877484 / 2 ^ 717 :: real) \<noteq> 0 \<and>
   D_spot binary64 (Fin (5883593420661338 * 2 ^ 612)) 3 (Fin (4611686018427388 / 2 ^ 62)) =
     Inl OverflowError \<and>
   D_spot binary64 (Fin 1) 0 (Fin 1) = Inl ZeroDivisionError \<and>
   D_spot binary64 (Fin 1) (- 1) (Fin 1) \<noteq> Inl ZeroDivisionError \<and>
   D_spot binary64 (Fin 1) (- 1) (Fin 1) \<noteq> Inl OverflowError"
proof -
  define P where "P = (\<lambda>x::real. to_double (x * x))"
  have B: "ieee P = binary64" by (simp add: binary64_def P_def)
  have ov: "overflows P x \<longleftrightarrow> huge \<le> x * x" for x
    unfolding P_def by (rule overflows_binary64)
  have n1: "\<bar>real_of_int 293\<bar> < huge" by (simp add: huge_def)
  have n2: "\<bar>5305678314021330 / 2 ^ 49 * (6894565328877484 / 2 ^ 717)\<bar> < huge"
    by (simp add: huge_def)
  have "to_double (5305678314021330 / 2 ^ 49 * (6894565328877484 / 2 ^ 717)) =
      Fin (8122468420086150 / 2 ^ 714)"
    using small_den2 by (simp only: fmul.simps rnd_binary64)
  then have n3: "nearest (5305678314021330 / 2 ^ 49 * (6894565328877484 / 2 ^ 717)) =
      8122468420086150 / 2 ^ 714"
    by (simp only: to_double_split)
  have n4: "\<bar>nearest (5305678314021330 / 2 ^ 49 * (6894565328877484 / 2 ^ 717)) *
      (6894565328877484 / 2 ^ 717)\<bar> \<le> tiny"
    unfolding n3 by (simp add: tiny_def)
  have a: "D_stokes_einstein binary64 (Fin (4695896663508951 / 2 ^ 128)) 293
     (Fin (6894565328877484 / 2 ^ 717)) (Fin (6894565328877484 / 2 ^ 717)) =
     Inl ZeroDivisionError"
    using raises_only_python_errors[where P = P and e = ZeroDivisionError and T = 293
        and kB = "4695896663508951 / 2 ^ 128" and eta = "6894565328877484 / 2 ^ 717"
        and d = "6894565328877484 / 2 ^ 717", THEN conjunct1] n1 n2 n4
    unfolding B by blast
  have "huge \<le> 5883593420661338 * 2 ^ 612 * (5883593420661338 * 2 ^ 612)"
    by (simp add: huge_def)
  then have o: "overflows P (5883593420661338 * 2 ^ 612)" by (simp only: ov)
  have b: "D_spot binary64 (Fin (5883593420661338 * 2 ^ 612)) 3 (Fin (4611686018427388 / 2 ^ 62)) =
     Inl OverflowError"
    using raises_only_python_errors[where P = P and e = OverflowError
        and S_spot = "5883593420661338 * 2 ^ 612" and N = 3
        and tau_spot = "4611686018427388 / 2 ^ 62", THEN conjunct2, THEN conjunct2, THEN conjunct1] o
    unfolding B by blast
  have s1: "\<not> overflows P 1" by (simp add: ov huge_def)
  have z: "\<bar>real_of_int (2 * 0)\<bar> < huge" "\<bar>nearest (real_of_int (2 * 0)) * 1\<bar> \<le> tiny"
    by (simp_all add: huge_def tiny_def nearest_zero)
  have c: "D_spot binary64 (Fin 1) 0 (Fin 1) = Inl ZeroDivisionError"
    using raises_only_python_errors[where P = P and e = ZeroDivisionError
        and S_spot = 1 and N = 0 and tau_spot = 1, THEN conjunct2, THEN conjunct2, THEN conjunct1]
      s1 z
    unfolding B by blast
  have m: "\<not> huge \<le> \<bar>real_of_int (2 * - 1)\<bar>" by (simp add: huge_def)
  have "nearest (real_of_int (2 * - 1)) = - 2"
    using b64_of_int[of "- 2"] by (simp add: nearest_def)
  then have m2: "\<not> \<bar>nearest (real_of_int (2 * - 1)) * 1\<bar> \<le> tiny"
    by (simp add: tiny_def power_int_minus divide_simps)
  have d: "D_spot binary64 (Fin 1) (- 1) (Fin 1) \<noteq> Inl ZeroDivisionError"
    using raises_only_python_errors[where P = P and e = ZeroDivisionError
        and S_spot = 1 and N = "- 1" and tau_spot = 1, THEN conjunct2, THEN conjunct2, THEN conjunct1]
      m2
    unfolding B by blast
  have e: "D_spot binary64 (Fin 1) (- 1) (Fin 1) \<noteq> Inl OverflowError"
    using raises_only_python_errors[where P = P and e = OverflowError
        and S_spot = 1 and N = "- 1" and tau_spot = 1, THEN conjunct2, THEN conjunct2, THEN conjunct1]
      s1 m
    unfolding B by blast
  have f: "(6894565328877484 / 2 ^ 717 :: real) \<noteq> 0" by simp
  from a f b c d e show ?thesis by blast
qed

text \<open>
  C6. \<open>D\<close> is one name assigned by two cells. The Stokes-Einstein cell gives it
  \<open>8.580361291970262e-11\<close>, the spot cell \<open>1.0666666666666665e-10\<close>, another double.
  When the notebook has run, the first value is left only among the displayed outputs;
  the name \<open>D\<close> holds the second, the second \<open>Du\<close> is its rescaling, and \<open>sigma\<close>
  and \<open>time\<close> are the values the formulas give for the second
  (\<open>7.999999999999999e-05\<close> and \<open>15.625000000000004\<close>), not the ones they give for the
  first (\<open>7.175107508032306e-05\<close> and \<open>19.424201498675576\<close>).
\<close>

theorem D_reassigned:
  "\<exists>st. run_notebook binary64 = Inr st \<and>
     D_stokes_einstein binary64 (lit binary64 (1.38 / 10 ^ 23)) 293
       (lit binary64 (1.0 / 10 ^ 3)) (lit binary64 (5 / 10 ^ 9)) =
       Inr (Fin (6638732996790264 / 2 ^ 86)) \<and>
     D_spot binary64 (lit binary64 (0.8 / 10 ^ 6)) 3 (lit binary64 (1 / 10 ^ 3)) =
       Inr (Fin (8252933595235867 / 2 ^ 86)) \<and>
     Fin (6638732996790264 / 2 ^ 86) \<noteq> Fin (8252933595235867 / 2 ^ 86) \<and>
     shown st ! 0 = Fin (6638732996790264 / 2 ^ 86) \<and>
     shown st ! 2 = Fin (8252933595235867 / 2 ^ 86) \<and>
     v_D st = Some (Fin (8252933595235867 / 2 ^ 86)) \<and>
     rescale binary64 (Fin (8252933595235867 / 2 ^ 86)) (lit binary64 (10 ^ 6))
       (lit binary64 (10 ^ 3)) = Inr (Fin (7686143364045645 / 2 ^ 56)) \<and>
     v_Du st = Some (Fin (7686143364045645 / 2 ^ 56)) \<and>
     sigma_displacement binary64 (Fin (8252933595235867 / 2 ^ 86)) 3 (lit binary64 10) =
       Inr (Fin (5902958103587056 / 2 ^ 66)) \<and>
     sigma_displacement binary64 (Fin (6638732996790264 / 2 ^ 86)) 3 (lit binary64 10) =
       Inr (Fin (5294294876080954 / 2 ^ 66)) \<and>
     v_sigma st = Some (Fin (5902958103587056 / 2 ^ 66)) \<and>
     v_sigma st \<noteq> Some (Fin (5294294876080954 / 2 ^ 66)) \<and>
     diffusion_time binary64 (lit binary64 (0.1 / 10 ^ 3)) (Fin (8252933595235867 / 2 ^ 86)) 3 =
       Inr (Fin (8796093022208002 / 2 ^ 49)) \<and>
     diffusion_time binary64 (lit binary64 (0.1 / 10 ^ 3)) (Fin (6638732996790264 / 2 ^ 86)) 3 =
       Inr (Fin (5467426664462797 / 2 ^ 48)) \<and>
     v_time st = Some (Fin (8796093022208002 / 2 ^ 49)) \<and>
     v_time st \<noteq> Some (Fin (5467426664462797 / 2 ^ 48))"
proof -
  have p: "two_D_N binary64 (Fin (6638732996790264 / 2 ^ 86)) 3 = Inr (Fin (4979049747592698 / 2 ^ 83))"
    unfolding two_D_N_def by (simp only: i2f_2 i2f_3 seq_Inr se_two_D se_two_D_3)
  have s: "sigma_displacement binary64 (Fin (6638732996790264 / 2 ^ 86)) 3 (lit binary64 10) =
       Inr (Fin (5294294876080954 / 2 ^ 66))"
    unfolding sigma_displacement_def by (simp only: p seq_Inr lit_10 se_sigma_rad se_sigma_sqrt)
  have t: "diffusion_time binary64 (lit binary64 (0.1 / 10 ^ 3)) (Fin (6638732996790264 / 2 ^ 86)) 3 =
       Inr (Fin (5467426664462797 / 2 ^ 48))"
    unfolding diffusion_time_def
    by (simp only: p lit_space lit_1 space_sq seq_Inr one_space_sq se_time_quot)
  have n: "Fin (6638732996790264 / 2 ^ 86) \<noteq> Fin (8252933595235867 / 2 ^ 86)" by simp
  have "\<exists>st. run_notebook binary64 = Inr st \<and>
     shown st ! 0 = Fin (6638732996790264 / 2 ^ 86) \<and>
     shown st ! 2 = Fin (8252933595235867 / 2 ^ 86) \<and>
     v_D st = Some (Fin (8252933595235867 / 2 ^ 86)) \<and>
     v_Du st = Some (Fin (7686143364045645 / 2 ^ 56)) \<and>
     v_sigma st = Some (Fin (5902958103587056 / 2 ^ 66)) \<and>
     v_sigma st \<noteq> Some (Fin (5294294876080954 / 2 ^ 66)) \<and>
     v_time st = Some (Fin (8796093022208002 / 2 ^ 49)) \<and>
     v_time st \<noteq> Some (Fin (5467426664462797 / 2 ^ 48))"
    unfolding run_notebook_binary64 by simp
  with n D_stokes_binary64 D_spot_binary64 rescale_um_binary64 sigma_binary64 s time_binary64 t
  show ?thesis by blast
qed

text \<open>
  C7, as stated, fails in binary64, in each of its two halves. The returned \<open>D\<close> is
  not always strictly positive: with \<open>S_spot = 1e-200\<close>, \<open>N = 1\<close> and \<open>tau_spot = 1.0\<close>
  the square underflows and the formula returns \<open>0.0\<close>, and with \<open>S_spot = 1e200\<close> the
  square overflows and the formula raises \<^verbatim>\<open>OverflowError\<close>. And it does not always
  decrease strictly: for the neighbouring doubles \<^verbatim>\<open>1.96875\<close> and \<^verbatim>\<open>1.9687500000000002\<close> as
  \<open>tau_spot\<close>, with \<open>S_spot = 1.0\<close> and \<open>N = 1\<close>, it returns the same \<open>D\<close>.
\<close>

theorem D_spot_not_strictly_antitone:
  "lit binary64 1.96875 = Fin (8866461766385664 / 2 ^ 52) \<and>
   lit binary64 1.9687500000000002 = Fin (8866461766385665 / 2 ^ 52) \<and>
   (0::real) < 1 \<and> (0::int) < 1 \<and> (0::real) < 8866461766385664 / 2 ^ 52 \<and>
   (8866461766385664 / 2 ^ 52 :: real) < 8866461766385665 / 2 ^ 52 \<and>
   D_spot binary64 (Fin 1) 1 (Fin (8866461766385664 / 2 ^ 52)) =
     Inr (Fin (4575085335741456 / 2 ^ 54)) \<and>
   D_spot binary64 (Fin 1) 1 (Fin (8866461766385665 / 2 ^ 52)) =
     Inr (Fin (4575085335741456 / 2 ^ 54)) \<and>
   \<not> ((4575085335741456 / 2 ^ 54 :: real) < 4575085335741456 / 2 ^ 54) \<and>
   lit binary64 (1 / 10 ^ 200) = Fin (6894565328877484 / 2 ^ 717) \<and>
   (0::real) < 6894565328877484 / 2 ^ 717 \<and>
   D_spot binary64 (Fin (6894565328877484 / 2 ^ 717)) 1 (Fin 1) = Inr (Fin 0) \<and>
   lit binary64 (10 ^ 200) = Fin (5883593420661338 * 2 ^ 612) \<and>
   D_spot binary64 (Fin (5883593420661338 * 2 ^ 612)) 1 (Fin 1) = Inl OverflowError"
proof -
  have a: "D_spot binary64 (Fin 1) 1 (Fin (8866461766385664 / 2 ^ 52)) =
     Inr (Fin (4575085335741456 / 2 ^ 54))"
    unfolding D_spot_def by (simp only: i2f_2_1 sq_1 seq_Inr merge_den_a merge_quot_a)
  have b: "D_spot binary64 (Fin 1) 1 (Fin (8866461766385665 / 2 ^ 52)) =
     Inr (Fin (4575085335741456 / 2 ^ 54))"
    unfolding D_spot_def by (simp only: i2f_2_1 sq_1 seq_Inr merge_den_b merge_quot_b)
  have c: "D_spot binary64 (Fin (6894565328877484 / 2 ^ 717)) 1 (Fin 1) = Inr (Fin 0)"
    unfolding D_spot_def
    apply (simp only: sq_1em200 i2f_2_1 seq_Inr)
    apply (simp add: fdiv_def rnd_binary64)
    done
  have d: "D_spot binary64 (Fin (5883593420661338 * 2 ^ 612)) 1 (Fin 1) = Inl OverflowError"
    unfolding D_spot_def by (simp only: sq_1e200 seq_Inl)
  show ?thesis using lit_tau_a lit_tau_b lit_1em200 lit_1e200 a b c d by simp
qed

text \<open>
  C7, amended. In the interpreter's arithmetic, with a \<^verbatim>\<open>pow\<close> of relative error at most
  \<open>w\<close>, and for positive \<open>S_spot\<close>, \<open>N\<close> and \<open>tau_spot\<close>:
  \<^item> whenever the spot formula returns for \<open>tau_spot\<close> and for a larger \<open>tau_spot'\<close>,
    the second \<open>D\<close> is not negative and not larger than the first;
  \<^item> for \<open>S_spot\<close>, \<open>tau_spot\<close> and \<open>tau_spot'\<close> between \<open>2^-250\<close> and \<open>2^250\<close> and \<open>N\<close>
    below \<open>2^52\<close>, where nothing overflows or underflows, it returns, and both \<open>D\<close> are
    strictly positive numbers;
  \<^item> in exact arithmetic the larger \<open>tau_spot\<close> gives a strictly smaller \<open>D\<close>.
\<close>

theorem D_spot_positive_nonincreasing:
  assumes "pow_within P w" "w \<le> 1/2"
    and "0 < S_spot" "0 < N" "0 < tau_spot" "tau_spot < tau_spot'"
  shows "(\<forall>D D'. D_spot (ieee P) (Fin S_spot) N (Fin tau_spot) = Inr D \<and>
            D_spot (ieee P) (Fin S_spot) N (Fin tau_spot') = Inr D' \<longrightarrow>
            nonneg D' \<and> fle D' D) \<and>
         (window (- 250) 250 S_spot \<and> N < 2 ^ 52 \<and> window (- 250) 250 tau_spot \<and>
            window (- 250) 250 tau_spot' \<longrightarrow>
          (\<exists>D D'. D_spot (ieee P) (Fin S_spot) N (Fin tau_spot) = Inr (Fin D) \<and>
             D_spot (ieee P) (Fin S_spot) N (Fin tau_spot') = Inr (Fin D') \<and>
             0 < D' \<and> D' \<le> D)) \<and>
         (\<exists>D D'. D_spot exact (Fin S_spot) N (Fin tau_spot) = Inr (Fin D) \<and>
            D_spot exact (Fin S_spot) N (Fin tau_spot') = Inr (Fin D') \<and> 0 < D' \<and> D' < D)"
proof (intro conjI allI impI)
  have M: "monotone_rounding (ieee P)" by (rule monotone_rounding_ieee)
  have Pn: "\<forall>x. 0 < x \<longrightarrow> nonneg (pow2 (ieee P) x)"
    using assms(1) by (simp add: pow_within_def)
  have le: "tau_spot \<le> tau_spot'" using assms(6) by simp
  note gen = D_spot_nonincreasing[OF M Pn assms(3,4,5) le]
  {
    fix D D'
    assume "D_spot (ieee P) (Fin S_spot) N (Fin tau_spot) = Inr D \<and>
            D_spot (ieee P) (Fin S_spot) N (Fin tau_spot') = Inr D'"
    then show "nonneg D'" "fle D' D" using gen by blast+
  }
  {
    assume h: "window (- 250) 250 S_spot \<and> N < 2 ^ 52 \<and> window (- 250) 250 tau_spot \<and>
            window (- 250) 250 tau_spot'"
    have N1: "1 \<le> N" using assms(4) by simp
    from D_spot_window[OF assms(1,2) _ N1, of S_spot tau_spot] h obtain D where
      D: "D_spot (ieee P) (Fin S_spot) N (Fin tau_spot) = Inr (Fin D)" by blast
    from D_spot_window[OF assms(1,2) _ N1, of S_spot tau_spot'] h obtain D' where
      D': "D_spot (ieee P) (Fin S_spot) N (Fin tau_spot') = Inr (Fin D')" "window (- 804) 751 D'"
      by blast
    have "0 < D'" using D'(2) by (rule window_pos)
    moreover have "D' \<le> D" using gen[OF D D'(1)] by simp
    ultimately show "\<exists>D D'. D_spot (ieee P) (Fin S_spot) N (Fin tau_spot) = Inr (Fin D) \<and>
             D_spot (ieee P) (Fin S_spot) N (Fin tau_spot') = Inr (Fin D') \<and>
             0 < D' \<and> D' \<le> D" using D D'(1) by blast
  }
  show "\<exists>D D'. D_spot exact (Fin S_spot) N (Fin tau_spot) = Inr (Fin D) \<and>
            D_spot exact (Fin S_spot) N (Fin tau_spot') = Inr (Fin D') \<and> 0 < D' \<and> D' < D"
    using assms(3,4,5,6) by (rule D_spot_exact_antitone)
qed

theorem D_spot_positive_nonincreasing_witness:
  "pow_within (\<lambda>x. to_double (x * x)) (1 / 2 ^ 53) \<and> (1 / 2 ^ 53 :: real) \<le> 1 / 2 \<and>
   (0::real) < 1 \<and> (0::int) < 1 \<and> (0::real) < 8866461766385664 / 2 ^ 52 \<and>
   (8866461766385664 / 2 ^ 52 :: real) < 8866461766385665 / 2 ^ 52 \<and>
   window (- 250) 250 1 \<and> (1::int) < 2 ^ 52 \<and>
   window (- 250) 250 (8866461766385664 / 2 ^ 52) \<and>
   window (- 250) 250 (8866461766385665 / 2 ^ 52) \<and>
   D_spot binary64 (Fin 1) 1 (Fin (8866461766385664 / 2 ^ 52)) =
     Inr (Fin (4575085335741456 / 2 ^ 54)) \<and>
   D_spot binary64 (Fin 1) 1 (Fin (8866461766385665 / 2 ^ 52)) =
     Inr (Fin (4575085335741456 / 2 ^ 54)) \<and>
   nonneg (Fin (4575085335741456 / 2 ^ 54)) \<and>
   fle (Fin (4575085335741456 / 2 ^ 54)) (Fin (4575085335741456 / 2 ^ 54)) \<and>
   (\<exists>D D'. D_spot binary64 (Fin 1) 1 (Fin (8866461766385664 / 2 ^ 52)) = Inr (Fin D) \<and>
      D_spot binary64 (Fin 1) 1 (Fin (8866461766385665 / 2 ^ 52)) = Inr (Fin D') \<and>
      0 < D' \<and> D' \<le> D) \<and>
   (\<exists>D D'. D_spot exact (Fin 1) 1 (Fin (8866461766385664 / 2 ^ 52)) = Inr (Fin D) \<and>
      D_spot exact (Fin 1) 1 (Fin (8866461766385665 / 2 ^ 52)) = Inr (Fin D') \<and>
      0 < D' \<and> D' < D)"
proof -
  have h: "(1 / 2 ^ 53 :: real) \<le> 1 / 2" "(0::real) < 1" "(0::int) < 1"
    "(0::real) < 8866461766385664 / 2 ^ 52"
    "(8866461766385664 / 2 ^ 52 :: real) < 8866461766385665 / 2 ^ 52" by simp_all
  have v: "window (- 250) 250 1" "window (- 250) 250 (8866461766385664 / 2 ^ 52)"
    "window (- 250) 250 (8866461766385665 / 2 ^ 52)"
    by (simp_all add: window_def power_int_minus divide_simps)
  have n: "(1::int) < 2 ^ 52" by simp
  have a: "D_spot binary64 (Fin 1) 1 (Fin (8866461766385664 / 2 ^ 52)) =
     Inr (Fin (4575085335741456 / 2 ^ 54))"
    unfolding D_spot_def by (simp only: i2f_2_1 sq_1 seq_Inr merge_den_a merge_quot_a)
  have b: "D_spot binary64 (Fin 1) 1 (Fin (8866461766385665 / 2 ^ 52)) =
     Inr (Fin (4575085335741456 / 2 ^ 54))"
    unfolding D_spot_def by (simp only: i2f_2_1 sq_1 seq_Inr merge_den_b merge_quot_b)
  note t = D_spot_positive_nonincreasing[OF pow_within_binary64 h, folded binary64_def]
  from t a b have g: "nonneg (Fin (4575085335741456 / 2 ^ 54))"
    "fle (Fin (4575085335741456 / 2 ^ 54)) (Fin (4575085335741456 / 2 ^ 54))" by blast+
  from t v n have w: "\<exists>D D'. D_spot binary64 (Fin 1) 1 (Fin (8866461766385664 / 2 ^ 52)) = Inr (Fin D) \<and>
      D_spot binary64 (Fin 1) 1 (Fin (8866461766385665 / 2 ^ 52)) = Inr (Fin D') \<and>
      0 < D' \<and> D' \<le> D" by blast
  from t have e: "\<exists>D D'. D_spot exact (Fin 1) 1 (Fin (8866461766385664 / 2 ^ 52)) = Inr (Fin D) \<and>
      D_spot exact (Fin 1) 1 (Fin (8866461766385665 / 2 ^ 52)) = Inr (Fin D') \<and>
      0 < D' \<and> D' < D" by blast
  from pow_within_binary64 h v n a b g w e show ?thesis by blast
qed

text \<open>
  C8, as stated, fails in binary64: with \<open>N = 3\<close> and \<open>time = 0.0\<close>, \<open>sigma\<close> is \<open>0.0\<close>
  for \<open>D = 1.0\<close> and \<open>nan\<close> for the larger \<open>D = 1e308\<close>, because \<open>2*D\<close> overflows to
  an infinity and an infinity times \<open>0.0\<close> is a NaN; and \<open>0.0 <= nan\<close> is false.
\<close>

theorem sigma_not_monotone_counterexample:
  "lit binary64 (10 ^ 308) = Fin (5010420900022432 * 2 ^ 971) \<and>
   nonneg (Fin 1) \<and> (0::int) \<le> 3 \<and> nonneg (Fin 0) \<and>
   fle (Fin 1) (Fin (5010420900022432 * 2 ^ 971)) \<and>
   sigma_displacement binary64 (Fin 1) 3 (Fin 0) = Inr (Fin 0) \<and>
   sigma_displacement binary64 (Fin (5010420900022432 * 2 ^ 971)) 3 (Fin 0) = Inr NaN \<and>
   \<not> fle (Fin 0) NaN"
proof -
  have i: "int_to_float binary64 2 = Inr (Fin 2)" "int_to_float binary64 3 = Inr (Fin 3)"
    unfolding binary64_def using int_to_float_small[of 2] int_to_float_small[of 3] by simp_all
  have o: "fmul binary64 (Fin 2) (Fin (5010420900022432 * 2 ^ 971)) = PInf"
    by (rule fmul_binary64I, rule to_double_infI) simp
  have a: "sigma_displacement binary64 (Fin 1) 3 (Fin 0) = Inr (Fin 0)"
    by (simp add: sigma_displacement_def two_D_N_def i seq_Inr rnd_binary64)
  have b: "sigma_displacement binary64 (Fin (5010420900022432 * 2 ^ 971)) 3 (Fin 0) = Inr NaN"
    unfolding sigma_displacement_def two_D_N_def i seq_Inr o by (simp add: inf_of_def)
  show ?thesis using lit_1e308 a b by simp
qed

text \<open>
  C8, amended. In every arithmetic whose rounding is monotone and fixes zero, binary64
  and exact arithmetic among them, and for arguments that are not negative, \<open>sigma\<close> is
  non-decreasing in each of \<open>D\<close>, \<open>N\<close> and \<open>time\<close>, the other two fixed, between any
  two evaluations that return a number and not a NaN. In the interpreter's arithmetic,
  for finite arguments that are not negative and an \<open>N\<close> that converts to a float, it
  returns a NaN exactly when \<open>2*D\<close> or \<open>2*D*N\<close> overflows and \<open>N\<close> or \<open>time\<close> is zero.
\<close>

theorem sigma_monotone_unless_nan:
  assumes "monotone_rounding A" and "nonneg D" "0 \<le> N" "nonneg time"
    and "sigma_displacement A D N time = Inr s" "s \<noteq> NaN"
  shows "(fle D D' \<and> sigma_displacement A D' N time = Inr s' \<and> s' \<noteq> NaN \<longrightarrow> fle s s') \<and>
         (N \<le> N' \<and> sigma_displacement A D N' time = Inr s' \<and> s' \<noteq> NaN \<longrightarrow> fle s s') \<and>
         (fle time time' \<and> sigma_displacement A D N time' = Inr s' \<and> s' \<noteq> NaN \<longrightarrow> fle s s') \<and>
         (0 \<le> x \<and> 0 \<le> t \<and> of_int N < huge \<longrightarrow>
            (sigma_displacement (ieee P) (Fin x) N (Fin t) = Inr NaN \<longleftrightarrow>
               (N = 0 \<or> t = 0) \<and>
               (huge \<le> 2 * x \<or> huge \<le> nearest (2 * x) * nearest (of_int N))))"
  using sigma_mono_D[OF assms(1,2,3,4) _ assms(5,6)]
    sigma_mono_N[OF assms(1,2,3,4) _ assms(5,6)]
    sigma_mono_time[OF assms(1,2,3,4) _ assms(5,6)]
    sigma_nan_iff[OF _ _ assms(3), of x t P]
  by blast

theorem sigma_monotone_unless_nan_witness:
  "monotone_rounding binary64 \<and> monotone_rounding exact \<and>
   nonneg (Fin 2) \<and> (0::int) \<le> 1 \<and> nonneg (Fin 1) \<and>
   sigma_displacement binary64 (Fin 2) 1 (Fin 1) = Inr (Fin 2) \<and> Fin 2 \<noteq> NaN \<and>
   fle (Fin 2) (Fin 8) \<and> (1::int) \<le> 4 \<and> fle (Fin 1) (Fin 4) \<and>
   sigma_displacement binary64 (Fin 8) 1 (Fin 1) = Inr (Fin 4) \<and>
   sigma_displacement binary64 (Fin 2) 4 (Fin 1) = Inr (Fin 4) \<and>
   sigma_displacement binary64 (Fin 2) 1 (Fin 4) = Inr (Fin 4) \<and> Fin 4 \<noteq> NaN \<and>
   fle (Fin 2) (Fin 4) \<and> \<not> fle (Fin 4) (Fin 2) \<and>
   (0::real) \<le> 2 ^ 1023 \<and> (0::real) \<le> 0 \<and> real_of_int 1 < huge \<and>
   sigma_displacement binary64 (Fin (2 ^ 1023)) 1 (Fin 0) = Inr NaN \<and>
   sigma_displacement binary64 (Fin (2 ^ 1023)) 1 (Fin 1) \<noteq> Inr NaN"
proof -
  have i: "int_to_float binary64 n = Inr (Fin (of_int n))" if "\<bar>n\<bar> < 2 ^ 53" for n
    unfolding binary64_def using that by (rule int_to_float_small)
  have q: "sqrt 4 = 2" "sqrt 16 = 4" by (simp_all add: real_sqrt_unique)
  have s: "sigma_displacement binary64 (Fin 2) 1 (Fin 1) = Inr (Fin 2)"
    "sigma_displacement binary64 (Fin 8) 1 (Fin 1) = Inr (Fin 4)"
    "sigma_displacement binary64 (Fin 2) 4 (Fin 1) = Inr (Fin 4)"
    "sigma_displacement binary64 (Fin 2) 1 (Fin 4) = Inr (Fin 4)"
    by (simp_all add: sigma_displacement_def two_D_N_def i seq_Inr rnd_binary64 q)
  have h: "nonneg (Fin 2)" "(0::int) \<le> 1" "nonneg (Fin 1)" by simp_all
  have n: "Fin 2 \<noteq> NaN" "Fin 4 \<noteq> NaN" by simp_all
  have o: "fle (Fin 2) (Fin 8)" "(1::int) \<le> 4" "fle (Fin 1) (Fin 4)" "\<not> fle (Fin 4) (Fin 2)"
    by simp_all
  note m = sigma_monotone_unless_nan[OF monotone_rounding_binary64 h s(1) n(1)]
  from m o(1) s(2) n(2) have g: "fle (Fin 2) (Fin 4)" by blast
  have r: "(0::real) \<le> 2 ^ 1023" "(0::real) \<le> 0" "real_of_int 1 < huge"
    by (simp_all add: huge_def)
  have k: "huge \<le> 2 * 2 ^ 1023" by (simp add: huge_def)
  note z = m[where x = "2 ^ 1023" and P = "\<lambda>x. to_double (x * x)", folded binary64_def,
      THEN conjunct2, THEN conjunct2, THEN conjunct2]
  from z[of 0] r k have a: "sigma_displacement binary64 (Fin (2 ^ 1023)) 1 (Fin 0) = Inr NaN"
    by simp
  from z[of 1] have b: "sigma_displacement binary64 (Fin (2 ^ 1023)) 1 (Fin 1) \<noteq> Inr NaN"
    using r(1,3) by simp
  from monotone_rounding_binary64 monotone_rounding_exact h s n o g r a b show ?thesis by blast
qed

text \<open>
  C9, as stated, fails in binary64: for \<open>sigma = 1e-200\<close>, \<open>D = 1.0\<close> and \<open>N = 1\<close> the
  square \<^verbatim>\<open>sigma**2\<close> underflows to \<open>0.0\<close>, the time is \<open>0.0\<close>, and the \<open>sigma\<close>
  recomputed from it is \<open>0.0\<close>: the deviation is the whole of \<open>sigma\<close>. For
  \<open>sigma = 1e200\<close> the square overflows and the time formula raises.
\<close>

theorem round_trip_counterexample:
  "lit binary64 (1 / 10 ^ 200) = Fin (6894565328877484 / 2 ^ 717) \<and>
   (0::real) \<le> 6894565328877484 / 2 ^ 717 \<and> (0::real) < 1 \<and> (0::int) < 1 \<and>
   diffusion_time binary64 (Fin (6894565328877484 / 2 ^ 717)) (Fin 1) 1 = Inr (Fin 0) \<and>
   sigma_displacement binary64 (Fin 1) 1 (Fin 0) = Inr (Fin 0) \<and>
   \<bar>0 - 6894565328877484 / 2 ^ 717\<bar> = (6894565328877484 / 2 ^ 717 :: real) \<and>
   (0::real) < 6894565328877484 / 2 ^ 717 \<and>
   lit binary64 (10 ^ 200) = Fin (5883593420661338 * 2 ^ 612) \<and>
   diffusion_time binary64 (Fin (5883593420661338 * 2 ^ 612)) (Fin 1) 1 = Inl OverflowError"
proof -
  have i: "int_to_float binary64 2 = Inr (Fin 2)" "int_to_float binary64 1 = Inr (Fin 1)"
    unfolding binary64_def using int_to_float_small[of 2] int_to_float_small[of 1] by simp_all
  have p: "two_D_N binary64 (Fin 1) 1 = Inr (Fin 2)"
    by (simp add: two_D_N_def i seq_Inr rnd_binary64)
  have a: "diffusion_time binary64 (Fin (6894565328877484 / 2 ^ 717)) (Fin 1) 1 = Inr (Fin 0)"
    unfolding diffusion_time_def
    apply (simp only: sq_1em200 seq_Inr p lit_1)
    apply (simp add: fdiv_def rnd_binary64)
    done
  have b: "sigma_displacement binary64 (Fin 1) 1 (Fin 0) = Inr (Fin 0)"
    by (simp add: sigma_displacement_def p seq_Inr rnd_binary64)
  have c: "diffusion_time binary64 (Fin (5883593420661338 * 2 ^ 612)) (Fin 1) 1 = Inl OverflowError"
    unfolding diffusion_time_def by (simp only: sq_1e200 seq_Inl)
  show ?thesis using lit_1em200 lit_1e200 a b c by simp
qed

text \<open>
  C9, amended. For \<open>sigma\<close> and \<open>D\<close> between \<open>2^-250\<close> and \<open>2^250\<close> and \<open>N\<close> from
  \<open>1\<close> to below \<open>2^53\<close>, where nothing overflows or underflows, and in the
  interpreter's arithmetic with a \<^verbatim>\<open>pow\<close> of relative error at most \<open>w\<close> (at least the
  \<open>2^-53\<close> of a rounding): the time formula at \<open>space = sigma\<close> returns a time, and the
  \<open>sigma\<close> recomputed from that time deviates from the original by at most
  \<open>(1 + w)^3 - 1\<close> of it. For \<open>sigma = 0\<close> the round trip returns \<open>0\<close>, and in exact
  arithmetic it returns \<open>sigma\<close> itself.
\<close>

theorem sigma_time_round_trip_in_range:
  assumes "pow_within P w" "1 / 2 ^ 53 \<le> w" "w \<le> 1/2"
    and "window (- 250) 250 sigma" "window (- 250) 250 D" "1 \<le> N" "N < 2 ^ 53"
  shows "(\<exists>t s'. diffusion_time (ieee P) (Fin sigma) (Fin D) N = Inr (Fin t) \<and>
            sigma_displacement (ieee P) (Fin D) N (Fin t) = Inr (Fin s') \<and>
            \<bar>s' - sigma\<bar> \<le> ((1 + w) ^ 3 - 1) * sigma) \<and>
         diffusion_time (ieee P) (Fin 0) (Fin D) N = Inr (Fin 0) \<and>
         sigma_displacement (ieee P) (Fin D) N (Fin 0) = Inr (Fin 0) \<and>
         (\<exists>t. diffusion_time exact (Fin sigma) (Fin D) N = Inr (Fin t) \<and>
            sigma_displacement exact (Fin D) N (Fin t) = Inr (Fin sigma))"
proof (intro conjI)
  have w0: "0 \<le> w" using assms(2) by (rule order_trans[rotated]) simp
  have s0: "0 < sigma" and D0: "0 < D" using assms(4,5) by (simp_all add: window_pos)
  from round_trip_window[OF assms] obtain t s' where
    r: "diffusion_time (ieee P) (Fin sigma) (Fin D) N = Inr (Fin t)"
      "sigma_displacement (ieee P) (Fin D) N (Fin t) = Inr (Fin s')"
      "sigma * (1 - w) ^ 3 \<le> s'" "s' \<le> sigma * (1 + w) ^ 3" by blast
  have g: "1 - (1 - w) ^ 3 \<le> (1 + w) ^ 3 - 1" using w0 assms(3) by (intro cube_gap) simp_all
  have "sigma * (1 - (1 - w) ^ 3) \<le> sigma * ((1 + w) ^ 3 - 1)"
    using g s0 by (intro mult_left_mono) simp_all
  then have "sigma - s' \<le> ((1 + w) ^ 3 - 1) * sigma" using r(3) by (simp add: algebra_simps)
  moreover have "s' - sigma \<le> ((1 + w) ^ 3 - 1) * sigma" using r(4) by (simp add: algebra_simps)
  ultimately have "\<bar>s' - sigma\<bar> \<le> ((1 + w) ^ 3 - 1) * sigma" by (simp add: abs_le_iff)
  with r(1,2) show "\<exists>t s'. diffusion_time (ieee P) (Fin sigma) (Fin D) N = Inr (Fin t) \<and>
            sigma_displacement (ieee P) (Fin D) N (Fin t) = Inr (Fin s') \<and>
            \<bar>s' - sigma\<bar> \<le> ((1 + w) ^ 3 - 1) * sigma" by blast
  from two_D_N_window[OF assms(5,6,7), of P] obtain p where
    p: "two_D_N (ieee P) (Fin D) N = Inr (Fin p)" "window (- 249) 304 p" by blast
  have p0: "p \<noteq> 0" using window_pos[OF p(2)] by simp
  show "diffusion_time (ieee P) (Fin 0) (Fin D) N = Inr (Fin 0)"
    using p0 by (simp add: diffusion_time_def p(1) seq_Inr lit_def fdiv_def)
  show "sigma_displacement (ieee P) (Fin D) N (Fin 0) = Inr (Fin 0)"
    by (simp add: sigma_displacement_def p(1) seq_Inr)
  have N0: "N \<noteq> 0" using assms(6) by simp
  have c: "2 * D * real_of_int N * (sigma\<^sup>2 / (2 * D * real_of_int N)) = sigma\<^sup>2"
    using D0 N0 by simp
  have "diffusion_time exact (Fin sigma) (Fin D) N = Inr (Fin (sigma\<^sup>2 / (2 * D * of_int N)))"
    using D0 N0 by (simp add: diffusion_time_exact)
  moreover have "sigma_displacement exact (Fin D) N (Fin (sigma\<^sup>2 / (2 * D * of_int N))) =
      Inr (Fin sigma)"
    unfolding sigma_displacement_exact c using s0 by simp
  ultimately show "\<exists>t. diffusion_time exact (Fin sigma) (Fin D) N = Inr (Fin t) \<and>
            sigma_displacement exact (Fin D) N (Fin t) = Inr (Fin sigma)" by blast
qed

theorem sigma_time_round_trip_in_range_witness:
  "pow_within (\<lambda>x. to_double (x * x)) (1 / 2 ^ 53) \<and>
   (1 / 2 ^ 53 :: real) \<le> 1 / 2 ^ 53 \<and> (1 / 2 ^ 53 :: real) \<le> 1 / 2 \<and>
   window (- 250) 250 (5902958103587056 / 2 ^ 66) \<and>
   window (- 250) 250 (8252933595235867 / 2 ^ 86) \<and> (1::int) \<le> 3 \<and> (3::int) < 2 ^ 53 \<and>
   diffusion_time binary64 (Fin (5902958103587056 / 2 ^ 66)) (Fin (8252933595235867 / 2 ^ 86)) 3 =
     Inr (Fin 10) \<and>
   sigma_displacement binary64 (Fin (8252933595235867 / 2 ^ 86)) 3 (Fin 10) =
     Inr (Fin (5902958103587056 / 2 ^ 66)) \<and>
   (\<exists>t s'. diffusion_time binary64 (Fin (5902958103587056 / 2 ^ 66))
        (Fin (8252933595235867 / 2 ^ 86)) 3 = Inr (Fin t) \<and>
      sigma_displacement binary64 (Fin (8252933595235867 / 2 ^ 86)) 3 (Fin t) = Inr (Fin s') \<and>
      \<bar>s' - 5902958103587056 / 2 ^ 66\<bar> \<le>
        ((1 + 1 / 2 ^ 53) ^ 3 - 1) * (5902958103587056 / 2 ^ 66))"
proof -
  have h: "(1 / 2 ^ 53 :: real) \<le> 1 / 2 ^ 53" "(1 / 2 ^ 53 :: real) \<le> 1 / 2" by simp_all
  have v: "window (- 250) 250 (5902958103587056 / 2 ^ 66)"
    "window (- 250) 250 (8252933595235867 / 2 ^ 86)"
    by (simp_all add: window_def power_int_minus divide_simps)
  have n: "(1::int) \<le> 3" "(3::int) < 2 ^ 53" by simp_all
  have a: "diffusion_time binary64 (Fin (5902958103587056 / 2 ^ 66))
      (Fin (8252933595235867 / 2 ^ 86)) 3 = Inr (Fin 10)"
    unfolding diffusion_time_def
    by (simp only: two_D_N_binary64 lit_1 rt_sq seq_Inr rt_one rt_quot)
  have b: "sigma_displacement binary64 (Fin (8252933595235867 / 2 ^ 86)) 3 (Fin 10) =
      Inr (Fin (5902958103587056 / 2 ^ 66))"
    unfolding sigma_displacement_def by (simp only: two_D_N_binary64 seq_Inr sigma_rad sigma_sqrt)
  note t = sigma_time_round_trip_in_range[OF pow_within_binary64 h v n, folded binary64_def]
  from t have "\<exists>t s'. diffusion_time binary64 (Fin (5902958103587056 / 2 ^ 66))
        (Fin (8252933595235867 / 2 ^ 86)) 3 = Inr (Fin t) \<and>
      sigma_displacement binary64 (Fin (8252933595235867 / 2 ^ 86)) 3 (Fin t) = Inr (Fin s') \<and>
      \<bar>s' - 5902958103587056 / 2 ^ 66\<bar> \<le>
        ((1 + 1 / 2 ^ 53) ^ 3 - 1) * (5902958103587056 / 2 ^ 66)" by blast
  with pow_within_binary64 h v n a b show ?thesis by blast
qed

text \<open>
  C10, as stated, fails in binary64: for \<open>D = 1e300\<close> the product \<^verbatim>\<open>D*(1e9)**2\<close>
  overflows, the rescaled value is an infinity for both factors, and an infinity times
  \<^verbatim>\<open>1e-12\<close> or \<^verbatim>\<open>1e-9\<close> is an infinity again, not \<open>D\<close>.
\<close>

theorem rescale_not_invertible_counterexample:
  "lit binary64 (10 ^ 300) = Fin (6724873095247260 * 2 ^ 944) \<and>
   rescale binary64 (Fin (6724873095247260 * 2 ^ 944)) (lit binary64 (10 ^ 9))
     (lit binary64 (10 ^ 6)) = Inr PInf \<and>
   fmul binary64 PInf (lit binary64 (1 / 10 ^ 12)) = PInf \<and>
   rescale binary64 (Fin (6724873095247260 * 2 ^ 944)) (lit binary64 (10 ^ 6))
     (lit binary64 (10 ^ 3)) = Inr PInf \<and>
   fmul binary64 PInf (lit binary64 (1 / 10 ^ 9)) = PInf \<and>
   PInf \<noteq> Fin (6724873095247260 * 2 ^ 944)"
proof -
  have a: "rescale binary64 (Fin (6724873095247260 * 2 ^ 944)) (lit binary64 (10 ^ 9))
     (lit binary64 (10 ^ 6)) = Inr PInf"
    unfolding rescale_def
    apply (simp only: lit_1e9 lit_1e6 sq_1e9 seq_Inr big_nm_mul)
    apply (simp add: fdiv_def inf_of_def)
    done
  have b: "rescale binary64 (Fin (6724873095247260 * 2 ^ 944)) (lit binary64 (10 ^ 6))
     (lit binary64 (10 ^ 3)) = Inr PInf"
    unfolding rescale_def
    apply (simp only: lit_1e6 lit_1e3 sq_1e6 seq_Inr big_um_mul)
    apply (simp add: fdiv_def inf_of_def)
    done
  have c: "fmul binary64 PInf (lit binary64 (1 / 10 ^ 12)) = PInf"
    "fmul binary64 PInf (lit binary64 (1 / 10 ^ 9)) = PInf"
    unfolding lit_1em12 lit_1em9 by (simp_all add: inf_of_def)
  show ?thesis using lit_1e300 a b c by simp
qed

text \<open>
  C10, amended. For \<open>D\<close> between \<open>2^-900\<close> and \<open>2^900\<close>, where nothing overflows or
  underflows, and in the interpreter's arithmetic with a \<^verbatim>\<open>pow\<close> of relative error at
  most \<open>w\<close> (at least the \<open>2^-53\<close> of a rounding): each rescaling of the notebook
  multiplies \<open>D\<close> by its factor, \<open>(1e9)\<^sup>2/1e6 = 1e12\<close> or \<open>(1e6)\<^sup>2/1e3 = 1e9\<close>, up to a
  relative deviation of \<open>(1 + w)^3 - 1\<close>, and multiplying the result by the inverse of
  the factor (the literal \<^verbatim>\<open>1e-12\<close> or \<^verbatim>\<open>1e-9\<close>) gives \<open>D\<close> back up to a relative
  deviation of \<open>(1 + w)^5 - 1\<close>. In exact arithmetic both steps are exact.
\<close>

theorem rescale_invertible_in_range:
  assumes "pow_within P w" "1 / 2 ^ 53 \<le> w" "w \<le> 1/2" "window (- 900) 900 D"
  shows "(\<exists>Du B. rescale (ieee P) (Fin D) (lit (ieee P) (10 ^ 9)) (lit (ieee P) (10 ^ 6)) =
            Inr (Fin Du) \<and>
          \<bar>Du - D * 10 ^ 12\<bar> \<le> ((1 + w) ^ 3 - 1) * (D * 10 ^ 12) \<and>
          fmul (ieee P) (Fin Du) (lit (ieee P) (1 / 10 ^ 12)) = Fin B \<and>
          \<bar>B - D\<bar> \<le> ((1 + w) ^ 5 - 1) * D) \<and>
         (\<exists>Du B. rescale (ieee P) (Fin D) (lit (ieee P) (10 ^ 6)) (lit (ieee P) (10 ^ 3)) =
            Inr (Fin Du) \<and>
          \<bar>Du - D * 10 ^ 9\<bar> \<le> ((1 + w) ^ 3 - 1) * (D * 10 ^ 9) \<and>
          fmul (ieee P) (Fin Du) (lit (ieee P) (1 / 10 ^ 9)) = Fin B \<and>
          \<bar>B - D\<bar> \<le> ((1 + w) ^ 5 - 1) * D) \<and>
         rescale exact (Fin D) (lit exact (10 ^ 9)) (lit exact (10 ^ 6)) = Inr (Fin (D * 10 ^ 12)) \<and>
         fmul exact (Fin (D * 10 ^ 12)) (lit exact (1 / 10 ^ 12)) = Fin D \<and>
         rescale exact (Fin D) (lit exact (10 ^ 6)) (lit exact (10 ^ 3)) = Inr (Fin (D * 10 ^ 9)) \<and>
         fmul exact (Fin (D * 10 ^ 9)) (lit exact (1 / 10 ^ 9)) = Fin D"
proof -
  have l: "lit (ieee P) (10 ^ 9) = Fin (10 ^ 9)" "lit (ieee P) (10 ^ 6) = Fin (10 ^ 6)"
    "lit (ieee P) (10 ^ 3) = Fin (10 ^ 3)"
    using to_double_of_int[of "10 ^ 9"] to_double_of_int[of "10 ^ 6"] to_double_of_int[of "10 ^ 3"]
    by (simp_all add: lit_def)
  have wl: "window 0 30 (10 ^ 9)" "window 0 30 (10 ^ 6)" "window 0 20 (10 ^ 6)"
    "window 0 20 (10 ^ 3)" "window (- 40) 0 (1 / 10 ^ 12)" "window (- 40) 0 (1 / 10 ^ 9)"
    by (simp_all add: window_def power_int_minus divide_simps)
  have f: "(10 ^ 9 * 10 ^ 9 / 10 ^ 6 :: real) = 10 ^ 12"
    "(10 ^ 9 * 10 ^ 9 / 10 ^ 6 * (1 / 10 ^ 12) :: real) = 1"
    "(10 ^ 6 * 10 ^ 6 / 10 ^ 3 :: real) = 10 ^ 9"
    "(10 ^ 6 * 10 ^ 6 / 10 ^ 3 * (1 / 10 ^ 9) :: real) = 1"
    by simp_all
  have a: "\<exists>Du B. rescale (ieee P) (Fin D) (lit (ieee P) (10 ^ 9)) (lit (ieee P) (10 ^ 6)) =
            Inr (Fin Du) \<and>
          \<bar>Du - D * 10 ^ 12\<bar> \<le> ((1 + w) ^ 3 - 1) * (D * 10 ^ 12) \<and>
          fmul (ieee P) (Fin Du) (lit (ieee P) (1 / 10 ^ 12)) = Fin B \<and>
          \<bar>B - D\<bar> \<le> ((1 + w) ^ 5 - 1) * D"
    using rescale_round_trip[OF assms wl(1) wl(3) wl(5)] unfolding l f by simp
  have b: "\<exists>Du B. rescale (ieee P) (Fin D) (lit (ieee P) (10 ^ 6)) (lit (ieee P) (10 ^ 3)) =
            Inr (Fin Du) \<and>
          \<bar>Du - D * 10 ^ 9\<bar> \<le> ((1 + w) ^ 3 - 1) * (D * 10 ^ 9) \<and>
          fmul (ieee P) (Fin Du) (lit (ieee P) (1 / 10 ^ 9)) = Fin B \<and>
          \<bar>B - D\<bar> \<le> ((1 + w) ^ 5 - 1) * D"
    using rescale_round_trip[OF assms wl(2) wl(4) wl(6)] unfolding l f by simp
  have e: "rescale exact (Fin D) (lit exact (10 ^ 9)) (lit exact (10 ^ 6)) = Inr (Fin (D * 10 ^ 12))"
    "fmul exact (Fin (D * 10 ^ 12)) (lit exact (1 / 10 ^ 12)) = Fin D"
    "rescale exact (Fin D) (lit exact (10 ^ 6)) (lit exact (10 ^ 3)) = Inr (Fin (D * 10 ^ 9))"
    "fmul exact (Fin (D * 10 ^ 9)) (lit exact (1 / 10 ^ 9)) = Fin D"
    by (simp_all add: rescale_exact lit_exact rnd_exact)
  from a b e show ?thesis by blast
qed

theorem rescale_invertible_in_range_witness:
  "pow_within (\<lambda>x. to_double (x * x)) (1 / 2 ^ 53) \<and>
   (1 / 2 ^ 53 :: real) \<le> 1 / 2 ^ 53 \<and> (1 / 2 ^ 53 :: real) \<le> 1 / 2 \<and>
   window (- 900) 900 (6638732996790264 / 2 ^ 86) \<and>
   rescale binary64 (Fin (6638732996790264 / 2 ^ 86)) (lit binary64 (10 ^ 9))
     (lit binary64 (10 ^ 6)) = Inr (Fin (6037892487065859 / 2 ^ 46)) \<and>
   fmul binary64 (Fin (6037892487065859 / 2 ^ 46)) (lit binary64 (1 / 10 ^ 12)) =
     Fin (6638732996790264 / 2 ^ 86) \<and>
   (\<exists>Du B. rescale binary64 (Fin (6638732996790264 / 2 ^ 86)) (lit binary64 (10 ^ 9))
        (lit binary64 (10 ^ 6)) = Inr (Fin Du) \<and>
      \<bar>Du - 6638732996790264 / 2 ^ 86 * 10 ^ 12\<bar> \<le>
        ((1 + 1 / 2 ^ 53) ^ 3 - 1) * (6638732996790264 / 2 ^ 86 * 10 ^ 12) \<and>
      fmul binary64 (Fin Du) (lit binary64 (1 / 10 ^ 12)) = Fin B \<and>
      \<bar>B - 6638732996790264 / 2 ^ 86\<bar> \<le>
        ((1 + 1 / 2 ^ 53) ^ 5 - 1) * (6638732996790264 / 2 ^ 86)) \<and>
   (\<exists>Du B. rescale binary64 (Fin (6638732996790264 / 2 ^ 86)) (lit binary64 (10 ^ 6))
        (lit binary64 (10 ^ 3)) = Inr (Fin Du) \<and>
      \<bar>Du - 6638732996790264 / 2 ^ 86 * 10 ^ 9\<bar> \<le>
        ((1 + 1 / 2 ^ 53) ^ 3 - 1) * (6638732996790264 / 2 ^ 86 * 10 ^ 9) \<and>
      fmul binary64 (Fin Du) (lit binary64 (1 / 10 ^ 9)) = Fin B \<and>
      \<bar>B - 6638732996790264 / 2 ^ 86\<bar> \<le>
        ((1 + 1 / 2 ^ 53) ^ 5 - 1) * (6638732996790264 / 2 ^ 86))"
proof -
  have h: "(1 / 2 ^ 53 :: real) \<le> 1 / 2 ^ 53" "(1 / 2 ^ 53 :: real) \<le> 1 / 2" by simp_all
  have v: "window (- 900) 900 (6638732996790264 / 2 ^ 86)"
    by (simp add: window_def power_int_minus divide_simps)
  have b: "fmul binary64 (Fin (6037892487065859 / 2 ^ 46)) (lit binary64 (1 / 10 ^ 12)) =
     Fin (6638732996790264 / 2 ^ 86)"
    unfolding lit_1em12 by (rule nm_back)
  note t = rescale_invertible_in_range[OF pow_within_binary64 h v, folded binary64_def]
  from t have a: "\<exists>Du B. rescale binary64 (Fin (6638732996790264 / 2 ^ 86)) (lit binary64 (10 ^ 9))
        (lit binary64 (10 ^ 6)) = Inr (Fin Du) \<and>
      \<bar>Du - 6638732996790264 / 2 ^ 86 * 10 ^ 12\<bar> \<le>
        ((1 + 1 / 2 ^ 53) ^ 3 - 1) * (6638732996790264 / 2 ^ 86 * 10 ^ 12) \<and>
      fmul binary64 (Fin Du) (lit binary64 (1 / 10 ^ 12)) = Fin B \<and>
      \<bar>B - 6638732996790264 / 2 ^ 86\<bar> \<le>
        ((1 + 1 / 2 ^ 53) ^ 5 - 1) * (6638732996790264 / 2 ^ 86)" by blast
  from t have c: "\<exists>Du B. rescale binary64 (Fin (6638732996790264 / 2 ^ 86)) (lit binary64 (10 ^ 6))
        (lit binary64 (10 ^ 3)) = Inr (Fin Du) \<and>
      \<bar>Du - 6638732996790264 / 2 ^ 86 * 10 ^ 9\<bar> \<le>
        ((1 + 1 / 2 ^ 53) ^ 3 - 1) * (6638732996790264 / 2 ^ 86 * 10 ^ 9) \<and>
      fmul binary64 (Fin Du) (lit binary64 (1 / 10 ^ 9)) = Fin B \<and>
      \<bar>B - 6638732996790264 / 2 ^ 86\<bar> \<le>
        ((1 + 1 / 2 ^ 53) ^ 5 - 1) * (6638732996790264 / 2 ^ 86)" by blast
  from pow_within_binary64 h v rescale_nm_binary64 b a c show ?thesis by blast
qed

end
